theory Spec2Isabelle
  imports Complex_Main "HOL-Library.Word"
begin

unbundle bit_operations_syntax

chapter \<open>The model\<close>

text \<open>
  The repository holds the machine problems MP2 to MP7 of one teaching kernel. Several
  classes exist in more than one version; a definition that embeds a version other than
  the latest carries the machine problem in its name (\<open>_MP2\<close>, \<open>_MP3\<close>, ...).
  The target is 32-bit x86: \<open>unsigned long\<close> and \<open>unsigned int\<close> are 32 bits
  wide. Addresses and sizes on which the code shifts, masks or may wrap are \<open>32 word\<close>;
  counters and indices that stay far below \<open>2 ^ 32\<close> are \<open>nat\<close>, and each place
  where the code could wrap says so.
\<close>

section \<open>Unsigned 32-bit arithmetic\<close>

text \<open>
  The counters of the code are \<open>unsigned long\<close> and \<open>unsigned int\<close>, 32 bits on
  this machine. Where the model keeps them as \<open>nat\<close> (each below \<open>2 ^ 32\<close>), the
  sums and differences that can leave the range are written with these two.
\<close>

definition uadd32 :: "nat \<Rightarrow> nat \<Rightarrow> nat" where
  "uadd32 a b = (a + b) mod 2 ^ 32"

definition usub32 :: "nat \<Rightarrow> nat \<Rightarrow> nat" where
  "usub32 a b = (a + 2 ^ 32 - b) mod 2 ^ 32"

section \<open>ContFramePool (two bits per frame): MP3 and MP5\<close>

text \<open>
  \<open>src/MP5/MP5_Sources/scheduler.C\<close> (second half) and
  \<open>src/Mp3/Submissions/MP3_Sources/cont_frame_pool.C\<close>. The bitmap is a
  \<open>unsigned char *\<close> without a bound: it is modelled as the memory behind that
  pointer, a function from the byte offset to the byte, so that an access past the
  \<open>n_frames / 4\<close> bytes the pool uses is an access to that memory, as in C.
  Frame numbers and counts are \<open>unsigned long\<close>: they are \<open>nat\<close> below
  \<open>2 ^ 32\<close> here, and the sums and differences of the code that are not kept in
  range by a test before them are written with \<open>uadd32\<close> and \<open>usub32\<close>.
\<close>

datatype FrameState = Free | Used | HoS

record ContFramePool =
  base_frame_no :: nat
  n_frames :: nat
  info_frame_no :: nat
  num_free_frames :: nat
  bitmap :: "nat \<Rightarrow> 8 word"

definition get_state :: "ContFramePool \<Rightarrow> nat \<Rightarrow> FrameState" where
  "get_state p frame_no =
     (let bitmap_row_index = frame_no div 4;
          bitmap_col_index = (frame_no mod 4) * 2;
          mask_result = drop_bit bitmap_col_index (bitmap p bitmap_row_index) AND 3
      in if mask_result = 0 then Free
         else if mask_result = 1 then Used
         else if mask_result = 3 then HoS
         else Used)"

definition set_state :: "ContFramePool \<Rightarrow> nat \<Rightarrow> FrameState \<Rightarrow> ContFramePool" where
  "set_state p frame_no st =
     (let bitmap_row_index = frame_no div 4;
          bitmap_col_index = (frame_no mod 4) * 2;
          b = bitmap p bitmap_row_index
      in p\<lparr>bitmap := (bitmap p)(bitmap_row_index :=
            (case st of
               Free \<Rightarrow> b AND NOT (push_bit bitmap_col_index 3)
             | Used \<Rightarrow> b XOR push_bit bitmap_col_index 1
             | HoS \<Rightarrow> b XOR push_bit bitmap_col_index 3))\<rparr>)"

text \<open>
  The constructor. \<open>mem0\<close> is the content of the info frame before the pool is built.
  The assertion \<open>n_frames % 8 == 0\<close> is the result \<open>None\<close>.
\<close>

definition ContFramePool_init :: "nat \<Rightarrow> nat \<Rightarrow> nat \<Rightarrow> (nat \<Rightarrow> 8 word) \<Rightarrow> ContFramePool option" where
  "ContFramePool_init base_frame n info_frame mem0 =
     (if n mod 8 \<noteq> 0 then None
      else
        let p0 = \<lparr>base_frame_no = base_frame, n_frames = n, info_frame_no = info_frame,
                  num_free_frames = n, bitmap = mem0\<rparr>;
            p1 = fold (\<lambda>fno p. set_state p fno Free) [0..<n] p0
        in Some (if info_frame = 0
                 then (set_state p1 0 Used)\<lparr>num_free_frames := usub32 (num_free_frames p1) 1\<rparr>
                 else p1))"

text \<open>
  The scan of \<open>get_frames\<close> for a run of \<open>n\<close> free frames: \<open>idx\<close>, \<open>run_start\<close>
  and \<open>run_len\<close> are the loop's variables; the result is the start of the run found.
\<close>

function find_run :: "ContFramePool \<Rightarrow> nat \<Rightarrow> nat \<Rightarrow> nat \<Rightarrow> nat \<Rightarrow> nat option" where
  "find_run p n idx run_start run_len =
     (if idx < n_frames p then
        (if get_state p idx = Free then
           (let run_start' = (if run_len = 0 then idx else run_start);
                run_len' = run_len + 1
            in if run_len' = n then Some run_start'
               else find_run p n (idx + 1) run_start' run_len')
         else find_run p n (idx + 1) run_start 0)
      else None)"
  by pat_completeness auto
termination
  by (relation "measure (\<lambda>(p, n, idx, run_start, run_len). n_frames p - idx)") auto

declare find_run.simps [simp del]

definition mark_run :: "ContFramePool \<Rightarrow> nat \<Rightarrow> nat \<Rightarrow> ContFramePool" where
  "mark_run p run_start n =
     fold (\<lambda>idx q. set_state q idx (if idx = run_start then HoS else Used))
       [run_start..<run_start + n] p"

text \<open>
  \<open>get_frames\<close>: both failures of the code end in \<open>assert(false)\<close> and are the
  result \<open>None\<close>; a success returns the absolute number of the first frame.
\<close>

definition get_frames :: "nat \<Rightarrow> ContFramePool \<Rightarrow> (nat \<times> ContFramePool) option" where
  "get_frames n p =
     (if n > num_free_frames p \<or> n > n_frames p then None
      else
        (case find_run p n 0 0 0 of
           None \<Rightarrow> None
         | Some run_start \<Rightarrow>
             Some (uadd32 run_start (base_frame_no p),
                   (mark_run p run_start n)\<lparr>num_free_frames := num_free_frames p - n\<rparr>)))"

definition mark_inaccessible :: "nat \<Rightarrow> nat \<Rightarrow> ContFramePool \<Rightarrow> ContFramePool option" where
  "mark_inaccessible base_frame n p =
     (let pool_lower = base_frame_no p;
          pool_upper_exclusive = uadd32 (base_frame_no p) (n_frames p);
          end_index = uadd32 base_frame n
      in if end_index > pool_upper_exclusive \<or> base_frame < pool_lower then None
         else Some (fold (\<lambda>idx q.
                      let rel = usub32 idx (base_frame_no q)
                      in if get_state q rel = Free
                         then (set_state q rel (if idx = base_frame then HoS else Used))
                                \<lparr>num_free_frames := usub32 (num_free_frames q) 1\<rparr>
                         else q)
                    [base_frame..<end_index] p))"

text \<open>
  \<open>release_frames_in_pool\<close> of MP5. The state is read at the index relative to the
  pool, \<open>get_state(current_index - base_frame_no)\<close>, and written at the absolute frame
  number, \<open>set_state(current_index, Free)\<close>, as the code has it. The loop runs while
  the frame read is not \<open>Free\<close>; nothing bounds it by \<open>n_frames\<close>, so it is a
  partial function: \<open>None\<close> is a loop that does not end, and also the failed
  assertion that the first frame is a head of sequence.
\<close>

partial_function (option) release_loop :: "ContFramePool \<Rightarrow> nat \<Rightarrow> ContFramePool option" where
  "release_loop p current_index =
     (if get_state p (usub32 current_index (base_frame_no p)) \<noteq> Free
      then release_loop
             ((set_state p current_index Free)\<lparr>num_free_frames := uadd32 (num_free_frames p) 1\<rparr>)
             (uadd32 current_index 1)
      else Some p)"

definition release_frames_in_pool :: "nat \<Rightarrow> ContFramePool \<Rightarrow> ContFramePool option" where
  "release_frames_in_pool first_frame_no p =
     (let current_index = uadd32 first_frame_no 1
      in if get_state p (usub32 first_frame_no (base_frame_no p)) = HoS
         then release_loop
                ((set_state p first_frame_no Free)\<lparr>num_free_frames := uadd32 (num_free_frames p) 1\<rparr>)
                current_index
         else None)"

text \<open>
  The static \<open>release_frames\<close> walks the global list of pools (here a list) and
  delegates to the first pool that owns the frame; no owner is a failed assertion.
\<close>

fun release_frames :: "nat \<Rightarrow> ContFramePool list \<Rightarrow> ContFramePool list option" where
  "release_frames first_frame_no [] = None"
| "release_frames first_frame_no (current # rest) =
     (let lower = base_frame_no current;
          upper_exclusive = uadd32 (base_frame_no current) (n_frames current)
      in if first_frame_no \<ge> lower \<and> first_frame_no < upper_exclusive
         then (case release_frames_in_pool first_frame_no current of
                 None \<Rightarrow> None
               | Some current' \<Rightarrow> Some (current' # rest))
         else (case release_frames first_frame_no rest of
                 None \<Rightarrow> None
               | Some rest' \<Rightarrow> Some (current # rest')))"

text \<open>
  \<open>needed_info_frames\<close> of MP3 and MP5, on 32-bit \<open>unsigned long\<close>: the product
  \<open>_n_frames * 2\<close> wraps.
\<close>

definition needed_info_frames :: "32 word \<Rightarrow> 32 word" where
  "needed_info_frames n =
     (let total_bits_needed = n * 2;
          full_frames = total_bits_needed div 32768;
          extra_frame = (if total_bits_needed mod 32768 > 0 then 1 else 0)
      in full_frames + extra_frame)"

section \<open>ContFramePool (one byte per frame): MP2\<close>

text \<open>
  Modelled from the spec: the constant \<open>FRAME_SIZE\<close> of \<open>cont_frame_pool.H\<close>, which
  is not among the sources; the spec gives a frame 4096 bytes.
\<close>

definition FRAME_SIZE :: "32 word" where
  "FRAME_SIZE = 4096"

text \<open>\<open>src/MP2/MP2_Sources/cont_frame_pool.C\<close>, \<open>needed_info_frames\<close>.\<close>

definition needed_info_frames_MP2 :: "32 word \<Rightarrow> 32 word" where
  "needed_info_frames_MP2 n = (n + FRAME_SIZE - 1) div FRAME_SIZE"

section \<open>VMPool\<close>

text \<open>
  \<open>src/unnamed/part_000\<close> (\<open>vm_pool.C\<close>). Addresses and sizes are
  \<open>unsigned long\<close>, here \<open>32 word\<close>. The region table \<open>ptr_vm_region\<close> is a
  pointer into the pool's first page with no bound in the code; it is modelled as the
  memory behind the pointer, indexed by the slot. \<open>num_regions\<close> is at least 1 from the
  constructor on (region 0 is the metadata page and is never released), so it is a
  \<open>nat\<close>. The fields \<open>base_address\<close> and \<open>size\<close> of the pool are
  \<open>pool_base_address\<close> and \<open>pool_size\<close> here, and the field \<open>length\<close> of a
  region is \<open>length_region\<close>.
\<close>

text \<open>
  Modelled from the spec: the constant \<open>PageTable::PAGE_SIZE\<close> of \<open>page_table.H\<close>,
  which is not among the sources; the spec gives a page 4 KiB.
\<close>

definition PAGE_SIZE :: "32 word" where
  "PAGE_SIZE = 4096"

record allocated_region_info =
  base_address :: "32 word"
  length_region :: "32 word"

record VMPool =
  pool_base_address :: "32 word"
  pool_size :: "32 word"
  num_regions :: nat
  available_memory :: "32 word"
  ptr_vm_region :: "nat \<Rightarrow> allocated_region_info"

text \<open>
  The constructor; \<open>m0\<close> is the content of the first page before. The registration
  with the page table is part of the page table's state (see below).
\<close>

definition VMPool_init :: "32 word \<Rightarrow> 32 word \<Rightarrow> (nat \<Rightarrow> allocated_region_info) \<Rightarrow> VMPool" where
  "VMPool_init base sz m0 =
     \<lparr>pool_base_address = base, pool_size = sz, num_regions = 1,
      available_memory = sz - PAGE_SIZE,
      ptr_vm_region = m0(0 := \<lparr>base_address = base, length_region = PAGE_SIZE\<rparr>)\<rparr>"

text \<open>\<open>allocate\<close>: the failed assertion is \<open>None\<close>; a success returns the address.\<close>

definition allocate :: "32 word \<Rightarrow> VMPool \<Rightarrow> (32 word \<times> VMPool) option" where
  "allocate sz p =
     (if sz > available_memory p then None
      else
        let pages_count = (sz div PAGE_SIZE) + (if (sz mod PAGE_SIZE) > 0 then 1 else 0);
            prev = ptr_vm_region p (num_regions p - 1);
            new_region = \<lparr>base_address = base_address prev + length_region prev,
                          length_region = pages_count * PAGE_SIZE\<rparr>;
            p' = p\<lparr>ptr_vm_region := (ptr_vm_region p)(num_regions p := new_region),
                   available_memory := available_memory p - pages_count * PAGE_SIZE,
                   num_regions := num_regions p + 1\<rparr>
        in Some (base_address (ptr_vm_region p' (num_regions p' - 1)), p'))"

text \<open>
  The search of \<open>release\<close> for the region that starts at the address, from slot 1.
\<close>

function find_region :: "VMPool \<Rightarrow> 32 word \<Rightarrow> nat \<Rightarrow> nat option" where
  "find_region p start_address index =
     (if index < num_regions p then
        (if base_address (ptr_vm_region p index) = start_address then Some index
         else find_region p start_address (index + 1))
      else None)"
  by pat_completeness auto
termination
  by (relation "measure (\<lambda>(p, start_address, index). num_regions p - index)") auto

declare find_region.simps [simp del]

text \<open>
  The calls \<open>page_table->free_page(_start_address)\<close> of the loop over the region's
  pages, as the list of the addresses passed, in order.
\<close>

fun free_pages :: "32 word \<Rightarrow> nat \<Rightarrow> 32 word list" where
  "free_pages start_address 0 = []"
| "free_pages start_address (Suc page_count) =
     start_address # free_pages (start_address + PAGE_SIZE) page_count"

definition shift_regions :: "(nat \<Rightarrow> allocated_region_info) \<Rightarrow> nat \<Rightarrow> nat \<Rightarrow> (nat \<Rightarrow> allocated_region_info)" where
  "shift_regions regions region_no n =
     fold (\<lambda>index r. r(index := r (index + 1))) [region_no..<n - 1] regions"

text \<open>
  \<open>release\<close>: the statements in the order of the code, the addition to
  \<open>available_memory\<close> after the shift of the table. The result is the pool and the
  pages handed to \<open>free_page\<close>; \<open>None\<close> is the failed assertion.
\<close>

definition release :: "32 word \<Rightarrow> VMPool \<Rightarrow> (VMPool \<times> 32 word list) option" where
  "release start_address p =
     (case find_region p start_address 1 of
        None \<Rightarrow> None
      | Some region_no \<Rightarrow>
          let page_count = unat (length_region (ptr_vm_region p region_no) div PAGE_SIZE);
              freed = free_pages start_address page_count;
              regions' = shift_regions (ptr_vm_region p) region_no (num_regions p);
              p1 = p\<lparr>ptr_vm_region := regions'\<rparr>;
              p2 = p1\<lparr>available_memory :=
                        available_memory p1 + length_region (ptr_vm_region p1 region_no)\<rparr>;
              p3 = p2\<lparr>num_regions := num_regions p2 - 1\<rparr>
          in Some (p3, freed))"

definition is_legitimate :: "VMPool \<Rightarrow> 32 word \<Rightarrow> bool" where
  "is_legitimate p address =
     (if address < pool_base_address p \<or> address \<ge> pool_base_address p + pool_size p
      then False else True)"

text \<open>
  The sum of the lengths of the recorded regions, region 0 included: the sum of which
  the accounting invariant \<open>available + \<Sigma> region.length = size\<close> speaks.
\<close>

definition regions_total :: "VMPool \<Rightarrow> nat" where
  "regions_total p =
     sum_list (map (\<lambda>i. unat (length_region (ptr_vm_region p i))) [0..<num_regions p])"

text \<open>A first page filled with zeros, for the examples.\<close>

definition zero_regions :: "nat \<Rightarrow> allocated_region_info" where
  "zero_regions = (\<lambda>_. \<lparr>base_address = 0, length_region = 0\<rparr>)"

section \<open>PageTable\<close>

text \<open>
  The handlers access memory through pointers. \<open>mem\<close> is the physical memory: a
  function from the address of a 4-byte-aligned word to the word, and \<open>p[i]\<close> for
  an \<open>unsigned long *p\<close> is the word at \<open>p + 4 * i\<close>. The handler of MP3 keeps
  the page directory and the page tables in the shared region, which is mapped to
  itself, so its pointers are physical addresses. The handler of MP4 reaches them
  through the recursive mapping: its pointers are translated (see below). The two
  frame pools are separate objects whose bitmaps are apart from this memory.
\<close>

record PageTable =
  mem :: "32 word \<Rightarrow> 32 word"
  cr2 :: "32 word"
  cr3 :: "32 word"
  kernel_mem_pool :: ContFramePool
  process_mem_pool :: ContFramePool
  shared_size :: "32 word"
  vm_pool_head :: "VMPool list"

text \<open>The loop that writes one value to the 1024 entries of a new page table.\<close>

definition fill_page_table :: "(32 word \<Rightarrow> 32 word) \<Rightarrow> 32 word \<Rightarrow> 32 word \<Rightarrow> (32 word \<Rightarrow> 32 word)" where
  "fill_page_table m new_page_table v =
     fold (\<lambda>entry m'. m'(new_page_table + 4 * of_nat entry := v)) [0..<1024] m"

subsection \<open>MP3\<close>

text \<open>
  \<open>src/Mp3/Submissions/MP3_Sources/page_table.C\<close>. \<open>error_code\<close> is the field of
  the register frame. \<open>None\<close> is a failed assertion: a protection fault, a frame pool
  that has no frame, or a new page table outside the shared region. (MP3 has no VM
  pools; \<open>vm_pool_head\<close> is not used.)
\<close>

text \<open>
  The flags of a new entry: \<open>USER_RW\<close> when the fault came from user mode (bit 2 of
  the error code), \<open>KERNEL_RW\<close> otherwise.
\<close>

definition fault_flags :: "32 word \<Rightarrow> 32 word" where
  "fault_flags error_code =
     (let from_user_mode = (error_code AND 4 \<noteq> 0);
          PRESENT = 1; WRITE = 2; USER = 4;
          KERNEL_RW = PRESENT OR WRITE;
          USER_RW = PRESENT OR WRITE OR USER
      in if from_user_mode then USER_RW else KERNEL_RW)"

text \<open>
  The first block of the handler: if the page directory entry is not present, take a
  frame from the kernel pool, install it in the directory and zero it.
\<close>

definition install_page_table_MP3 :: "32 word \<Rightarrow> PageTable \<Rightarrow> PageTable option" where
  "install_page_table_MP3 flags s =
     (let fault_address = cr2 s;
          page_directory = cr3 s AND NOT 0xFFF;
          page_directory_index = drop_bit 22 fault_address AND 0x3FF
      in if mem s (page_directory + 4 * page_directory_index) AND 1 = 0
         then (case get_frames 1 (kernel_mem_pool s) of
                 None \<Rightarrow> None
               | Some (new_page_table_frame, kp) \<Rightarrow>
                   let new_page_table_phys = of_nat new_page_table_frame * PAGE_SIZE
                   in if \<not> (new_page_table_phys + PAGE_SIZE \<le> shared_size s) then None
                      else Some (s\<lparr>kernel_mem_pool := kp,
                                  mem := fill_page_table
                                    ((mem s)(page_directory + 4 * page_directory_index :=
                                       new_page_table_phys OR flags))
                                    new_page_table_phys 0\<rparr>))
         else Some s)"

text \<open>
  The second block: if the page table entry is not present, take a frame from the
  process pool and install it in the page table.
\<close>

definition install_page_MP3 :: "32 word \<Rightarrow> PageTable \<Rightarrow> PageTable option" where
  "install_page_MP3 flags s =
     (let fault_address = cr2 s;
          page_directory = cr3 s AND NOT 0xFFF;
          page_directory_index = drop_bit 22 fault_address AND 0x3FF;
          page_table_index = drop_bit 12 fault_address AND 0x3FF;
          page_table = mem s (page_directory + 4 * page_directory_index) AND NOT 0xFFF
      in if mem s (page_table + 4 * page_table_index) AND 1 = 0
         then (case get_frames 1 (process_mem_pool s) of
                 None \<Rightarrow> None
               | Some (new_page_frame, pp) \<Rightarrow>
                   let new_page_phys = of_nat new_page_frame * PAGE_SIZE
                   in Some (s\<lparr>process_mem_pool := pp,
                               mem := (mem s)(page_table + 4 * page_table_index :=
                                        new_page_phys OR flags)\<rparr>))
         else Some s)"

definition handle_fault_MP3 :: "32 word \<Rightarrow> PageTable \<Rightarrow> PageTable option" where
  "handle_fault_MP3 error_code s =
     (let page_not_present = (error_code AND 1 = 0)
      in if \<not> page_not_present then None
         else (case install_page_table_MP3 (fault_flags error_code) s of
                 None \<Rightarrow> None
               | Some s1 \<Rightarrow> install_page_MP3 (fault_flags error_code) s1))"

subsection \<open>MP4\<close>

text \<open>
  \<open>src/MP4/MP4_Sources/page_table.C\<close>. The handler of MP4 runs with paging on and
  reaches the page directory and the page tables through the recursive mapping, so
  its loads and stores go through the address translation.

  Modelled from the spec: the two-level walk of the MMU, which is hardware and not
  among the sources; the spec gives bits 22..31 of an address as the directory
  index, bits 12..21 as the table index and bit 0 of an entry as \<open>Present\<close>. The
  walk starts at the frame in \<open>cr3\<close>; \<open>None\<close> is a page fault. The handler runs in
  supervisor mode, where the bits \<open>Read/Write\<close> and \<open>User\<close> of an entry refuse
  nothing. The TLB, and the bits \<open>Accessed\<close> and \<open>Dirty\<close> that the processor
  sets in the entries it walks, are outside the model: \<open>mem\<close> changes by the
  stores of the handler only.
\<close>

definition translate :: "PageTable \<Rightarrow> 32 word \<Rightarrow> 32 word option" where
  "translate s va =
     (let pde = mem s ((cr3 s AND NOT 0xFFF) + 4 * drop_bit 22 va)
      in if pde AND 1 = 0 then None
         else
           let pte = mem s ((pde AND NOT 0xFFF) + 4 * (drop_bit 12 va AND 0x3FF))
           in if pte AND 1 = 0 then None
              else Some ((pte AND NOT 0xFFF) OR (va AND 0xFFF)))"

text \<open>
  The walk over the list of VM pools returns the pointer \<open>tmp\<close> where it stopped
  (the rest of the list, \<open>[]\<close> for \<open>nullptr\<close>) and \<open>present_flag\<close>.
\<close>

fun find_legitimate :: "VMPool list \<Rightarrow> 32 word \<Rightarrow> VMPool list \<times> nat" where
  "find_legitimate [] fault_address = ([], 0)"
| "find_legitimate (tmp # rest) fault_address =
     (if is_legitimate tmp fault_address = True then (tmp # rest, 1)
      else find_legitimate rest fault_address)"

text \<open>
  What the handler does to memory, and the handler itself: \<open>Load p\<close> is a read of
  \<open>*p\<close> and \<open>Store p v\<close> is \<open>*p = v\<close>, for a pointer \<open>p\<close> of the handler (a
  virtual address); \<open>Fill new_page_table index\<close> is the loop
  \<open>for (; index < 1024; index++) new_page_table[index] = 0b100\<close>; and
  \<open>HandleFault error_code\<close> is \<open>handle_fault\<close> with that error code in the
  register frame and the fault address in \<open>cr2\<close>.

  Modelled from the spec: \<open>handle_fault\<close> is called from the fault vector, with
  the fault address in \<open>cr2\<close>. A load or store of the handler at an address that
  the walk does not translate is itself a page fault: the processor puts the address
  into \<open>cr2\<close> and the handler is entered again (the error code is 0 for a read
  and 2 for a write in supervisor mode to a page that is not present); when that
  handler returns, the instruction runs again. The fault vector and its dispatcher
  are not among the sources. The handler keeps the fault address and the directory
  base in local variables, so it goes on with its own values after a nested fault.

  The result is the value loaded (0 for the others) and the state. \<open>None\<close> is a
  failed assertion (an address no pool accepts, a frame pool that has no frame) or a
  handler that never returns. A fault whose error code has the present bit set is not
  serviced: the state is returned as it is.
\<close>

datatype MP4_op =
    Load "32 word"
  | Store "32 word" "32 word"
  | Fill "32 word" nat
  | HandleFault "32 word"

partial_function (option) run_MP4 :: "MP4_op \<Rightarrow> PageTable \<Rightarrow> (32 word \<times> PageTable) option" where
  "run_MP4 op s =
     (case op of
        Load p \<Rightarrow>
          (case translate s p of
             Some pa \<Rightarrow> Some (mem s pa, s)
           | None \<Rightarrow>
               Option.bind (run_MP4 (HandleFault 0) (s\<lparr>cr2 := p\<rparr>))
                 (\<lambda>r. run_MP4 (Load p) (snd r)))
      | Store p v \<Rightarrow>
          (case translate s p of
             Some pa \<Rightarrow> Some (0, s\<lparr>mem := (mem s)(pa := v)\<rparr>)
           | None \<Rightarrow>
               Option.bind (run_MP4 (HandleFault 2) (s\<lparr>cr2 := p\<rparr>))
                 (\<lambda>r. run_MP4 (Store p v) (snd r)))
      | Fill new_page_table index \<Rightarrow>
          if index < 1024
          then Option.bind (run_MP4 (Store (new_page_table + 4 * of_nat index) 4) s)
                 (\<lambda>r. run_MP4 (Fill new_page_table (index + 1)) (snd r))
          else Some (0, s)
      | HandleFault error_code \<Rightarrow>
          if error_code AND 1 = 0 then
            (let fault_address = cr2 s;
                 page_dir = cr3 s;
                 page_dir_index = drop_bit 22 fault_address;
                 page_table_index = drop_bit 12 (fault_address AND push_bit 12 0x03FF);
                 (tmp, present_flag) = find_legitimate (vm_pool_head s) fault_address
             in if tmp \<noteq> [] \<and> present_flag = 0 then None
                else
                  Option.bind (run_MP4 (Load (page_dir + 4 * page_dir_index)) s)
                    (\<lambda>r0.
                       if fst r0 AND 1 = 0 then
                         (case get_frames 1 (process_mem_pool (snd r0)) of
                            None \<Rightarrow> None
                          | Some (f1, pp1) \<Rightarrow>
                              let new_page_table = of_nat f1 * PAGE_SIZE;
                                  new_pde = push_bit 12 0xFFFFF
                              in Option.bind
                                   (run_MP4 (Store (new_pde + 4 * page_dir_index)
                                               (new_page_table OR 3))
                                      ((snd r0)\<lparr>process_mem_pool := pp1\<rparr>))
                                   (\<lambda>r1.
                                      Option.bind (run_MP4 (Fill new_page_table 0) (snd r1))
                                        (\<lambda>r2.
                                           (case get_frames 1 (process_mem_pool (snd r2)) of
                                              None \<Rightarrow> None
                                            | Some (f2, pp2) \<Rightarrow>
                                                let new_pde' = of_nat f2 * PAGE_SIZE;
                                                    page_entry = push_bit 22 0x3FF
                                                                   OR push_bit 12 page_dir_index
                                                in run_MP4 (Store (page_entry + 4 * page_table_index)
                                                              (new_pde' OR 3))
                                                     ((snd r2)\<lparr>process_mem_pool := pp2\<rparr>)))))
                       else
                         (case get_frames 1 (process_mem_pool (snd r0)) of
                            None \<Rightarrow> None
                          | Some (f, pp) \<Rightarrow>
                              let new_pde = of_nat f * PAGE_SIZE;
                                  page_entry = push_bit 22 0x3FF OR push_bit 12 page_dir_index
                              in run_MP4 (Store (page_entry + 4 * page_table_index)
                                            (new_pde OR 3))
                                   ((snd r0)\<lparr>process_mem_pool := pp\<rparr>))))
          else Some (0, s))"

definition handle_fault_MP4 :: "32 word \<Rightarrow> PageTable \<Rightarrow> PageTable option" where
  "handle_fault_MP4 error_code s = map_option snd (run_MP4 (HandleFault error_code) s)"




text \<open>
  The constructor, \<open>PageTable::PageTable()\<close> (l.24-62). It runs before paging is
  switched on, so its pointers are physical addresses: it takes one frame from the
  kernel pool for the page directory and one from the process pool for the first
  page table, makes the last of the first \<open>shared_size / PAGE_SIZE\<close> entries of
  the directory point to the directory itself and entry 0 to the page table, sets
  bit 1 of the entries between them, and maps the shared region to itself in the
  page table. The sums and differences are those of \<open>unsigned long\<close>. The result
  is the address of the page directory and the state; \<open>None\<close> is a frame pool
  that has no frame.
\<close>

definition PageTable_MP4 :: "PageTable \<Rightarrow> (32 word \<times> PageTable) option" where
  "PageTable_MP4 s =
     (let num_shared_frames = shared_size s div PAGE_SIZE
      in case get_frames 1 (kernel_mem_pool s) of
           None \<Rightarrow> None
         | Some (f0, kp) \<Rightarrow>
             let page_directory = of_nat f0 * PAGE_SIZE;
                 m1 = (mem s)(page_directory + 4 * (num_shared_frames - 1) := page_directory OR 3)
             in case get_frames 1 (process_mem_pool s) of
                  None \<Rightarrow> None
                | Some (f1, pp) \<Rightarrow>
                    let page_table = of_nat f1 * PAGE_SIZE;
                        m2 = m1(page_directory + 4 * 0 := page_table OR 3);
                        m3 = fold (\<lambda>index m. m(page_directory + 4 * of_nat index :=
                                                   m (page_directory + 4 * of_nat index) OR 2))
                               [1..<unat (num_shared_frames - 1)] m2;
                        m4 = fold (\<lambda>index m. m(page_table + 4 * of_nat index :=
                                                   of_nat index * PAGE_SIZE OR 3))
                               [0..<unat num_shared_frames] m3
                    in Some (page_directory,
                             s\<lparr>kernel_mem_pool := kp, process_mem_pool := pp, mem := m4\<rparr>))"

subsection \<open>Example states\<close>

text \<open>
  A kernel pool of 8 frames from frame 512 that keeps its bitmap in its first frame
  (marked \<open>Used\<close>) and has handed out frame 513 (the info frame of the process
  pool) and frame 514 (the page directory); a fresh process pool of 8 frames from
  frame 1024; and the state of a fault at \<open>0x400000\<close> with all memory zero, so that
  the page directory entry is absent.
\<close>

definition example_kernel_pool :: ContFramePool where
  "example_kernel_pool =
     \<lparr>base_frame_no = 512, n_frames = 8, info_frame_no = 0, num_free_frames = 5,
      bitmap = (\<lambda>_. 0)(0 := 0x3D)\<rparr>"

definition example_process_pool :: ContFramePool where
  "example_process_pool =
     \<lparr>base_frame_no = 1024, n_frames = 8, info_frame_no = 513, num_free_frames = 8,
      bitmap = (\<lambda>_. 0)\<rparr>"


text \<open>
  The state in which the constructor of MP4 runs: the kernel pool before it has
  handed out the frame of the page directory, the fresh process pool, all memory zero.
\<close>

definition example_start_state_MP4 :: PageTable where
  "example_start_state_MP4 =
     \<lparr>mem = (\<lambda>_. 0), cr2 = 0, cr3 = 0,
      kernel_mem_pool = example_kernel_pool\<lparr>num_free_frames := 6, bitmap := (\<lambda>_. 0)(0 := 0x0D)\<rparr>,
      process_mem_pool = example_process_pool,
      shared_size = 0x400000, vm_pool_head = []\<rparr>"

text \<open>
  The memory as the constructor of MP4 leaves it from that state (lemma
  \<open>PageTable_MP4_example\<close>):
  in the frame of the page directory, entry 0 points to the first page table, entry
  1023 to the directory itself (the recursive mapping), both \<open>Present|RW\<close>, and
  the other entries are \<open>0b10\<close>; the first page table maps the first 4 MB to
  themselves.
\<close>

definition example_boot_mem :: "32 word \<Rightarrow> 32 word \<Rightarrow> 32 word \<Rightarrow> 32 word" where
  "example_boot_mem page_directory page_table a =
     (if a AND NOT 0xFFF = page_directory then
        (if a = page_directory then page_table OR 3
         else if a = page_directory + 4 * 1023 then page_directory OR 3
         else 2)
      else if a AND NOT 0xFFF = page_table then push_bit 10 (a AND 0xFFF) OR 3
      else 0)"

text \<open>
  The state of MP4 at its first fault outside the first 4 MB, at \<open>0x40000000\<close>:
  the page directory in frame 514 of the kernel pool, the first page table in frame
  1024, the first frame of the process pool, and in frame 1025, which is free, a word
  left from an earlier use.
\<close>

definition example_state_MP4 :: "32 word \<Rightarrow> ContFramePool \<Rightarrow> (32 word \<Rightarrow> 32 word) \<Rightarrow> PageTable" where
  "example_state_MP4 fault_address pool m =
     \<lparr>mem = m, cr2 = fault_address, cr3 = 0x202000,
      kernel_mem_pool = example_kernel_pool, process_mem_pool = pool,
      shared_size = 0x400000, vm_pool_head = []\<rparr>"


text \<open>The memory after the handler has run from that state.\<close>

definition example_final_mem_MP4 :: "32 word \<Rightarrow> 32 word" where
  "example_final_mem_MP4 =
     (fill_page_table
        ((fill_page_table
            ((example_boot_mem 0x202000 0x400000)
               (0x401004 := 0xABC007, 0x202400 := 0x401003, 0x202004 := 0x402003,
                0x402008 := 0x403003))
            0x403000 4)
           (0x402004 := 0x404003))
        0x404000 4)
       (0x401000 := 0x405003)"


section \<open>Scheduler\<close>

text \<open>
  A \<open>Thread *\<close> is identified with the thread's id (ids are assigned once and never
  reused, so two pointers are equal exactly when the ids are); there is no null thread
  among them: a pointer that may be null is a \<open>Thread option\<close>.
\<close>

type_synonym Thread = nat

subsection \<open>MP5: the scheduler over the class Queue\<close>

text \<open>
  \<open>src/MP5/MP5_Sources/scheduler.C\<close> (first half). The scheduler keeps the number of
  queued threads in \<open>qsize\<close>, an \<open>int\<close>, next to the queue.
\<close>

text \<open>
  Modelled from the spec: the class \<open>Queue\<close> of \<open>scheduler.H\<close>, which is not among
  the sources; the spec gives the ready queue as an ordered sequence with FIFO enqueue
  and dequeue. A dequeue from the empty queue is \<open>None\<close>.
\<close>

definition enqueue :: "Thread list \<Rightarrow> Thread \<Rightarrow> Thread list" where
  "enqueue q t = q @ [t]"

definition dequeue :: "Thread list \<Rightarrow> (Thread \<times> Thread list) option" where
  "dequeue q = (case q of [] \<Rightarrow> None | t # q' \<Rightarrow> Some (t, q'))"

record Scheduler_MP5 =
  ready_queue_MP5 :: "Thread list"
  qsize :: int
  interrupts_enabled :: bool
  current_thread_MP5 :: "Thread option"

text \<open>
  Modelled from the spec: \<open>Thread::dispatch_to\<close> and \<open>Thread::CurrentThread\<close> of
  \<open>thread.C\<close>, which is not among the sources; the switch of context makes the
  thread the running one.
\<close>

definition dispatch_to_MP5 :: "Thread \<Rightarrow> Scheduler_MP5 \<Rightarrow> Scheduler_MP5" where
  "dispatch_to_MP5 t s = s\<lparr>current_thread_MP5 := Some t\<rparr>"

definition disable_if_enabled :: "Scheduler_MP5 \<Rightarrow> Scheduler_MP5" where
  "disable_if_enabled s = (if interrupts_enabled s then s\<lparr>interrupts_enabled := False\<rparr> else s)"

definition enable_if_disabled :: "Scheduler_MP5 \<Rightarrow> Scheduler_MP5" where
  "enable_if_disabled s = (if \<not> interrupts_enabled s then s\<lparr>interrupts_enabled := True\<rparr> else s)"

definition yield_MP5 :: "Scheduler_MP5 \<Rightarrow> Scheduler_MP5 option" where
  "yield_MP5 s =
     (let s1 = disable_if_enabled s
      in if qsize s1 = 0 then Some s1
         else (case dequeue (ready_queue_MP5 s1) of
                 None \<Rightarrow> None
               | Some (new_thread, q) \<Rightarrow>
                   let s2 = s1\<lparr>ready_queue_MP5 := q\<rparr>;
                       s3 = s2\<lparr>qsize := qsize s2 - 1\<rparr>;
                       s4 = enable_if_disabled s3
                   in Some (dispatch_to_MP5 new_thread s4)))"

definition resume_MP5 :: "Thread \<Rightarrow> Scheduler_MP5 \<Rightarrow> Scheduler_MP5" where
  "resume_MP5 t s =
     (let s1 = disable_if_enabled s;
          s2 = s1\<lparr>ready_queue_MP5 := enqueue (ready_queue_MP5 s1) t\<rparr>;
          s3 = s2\<lparr>qsize := qsize s2 + 1\<rparr>
      in enable_if_disabled s3)"

definition add_MP5 :: "Thread \<Rightarrow> Scheduler_MP5 \<Rightarrow> Scheduler_MP5" where
  "add_MP5 t s =
     (let s1 = disable_if_enabled s;
          s2 = s1\<lparr>ready_queue_MP5 := enqueue (ready_queue_MP5 s1) t\<rparr>;
          s3 = s2\<lparr>qsize := qsize s2 + 1\<rparr>
      in enable_if_disabled s3)"

text \<open>
  The loop of \<open>terminate\<close>: \<open>for (index = 0; index < qsize; index++)\<close>, where the
  body decrements \<open>qsize\<close> when it drops the thread, so the bound moves while the
  loop runs.
\<close>

function terminate_loop_MP5 :: "Thread \<Rightarrow> int \<Rightarrow> Scheduler_MP5 \<Rightarrow> Scheduler_MP5 option" where
  "terminate_loop_MP5 t index s =
     (if index < qsize s then
        (case dequeue (ready_queue_MP5 s) of
           None \<Rightarrow> None
         | Some (top_thread, q) \<Rightarrow>
             if top_thread \<noteq> t
             then terminate_loop_MP5 t (index + 1) (s\<lparr>ready_queue_MP5 := enqueue q top_thread\<rparr>)
             else terminate_loop_MP5 t (index + 1) (s\<lparr>ready_queue_MP5 := q, qsize := qsize s - 1\<rparr>))
      else Some s)"
  by pat_completeness auto
termination
  by (relation "measure (\<lambda>(t, index, s). nat (qsize s - index))") auto

declare terminate_loop_MP5.simps [simp del]

definition terminate_MP5 :: "Thread \<Rightarrow> Scheduler_MP5 \<Rightarrow> Scheduler_MP5 option" where
  "terminate_MP5 t s =
     (case terminate_loop_MP5 t 0 (disable_if_enabled s) of
        None \<Rightarrow> None
      | Some s' \<Rightarrow> Some (enable_if_disabled s'))"

subsection \<open>MP6: the scheduler over its own linked list\<close>

text \<open>
  \<open>src/MP6/MP6_Sources/scheduler.C\<close>. The singly linked list from
  \<open>ready_queue_head\<close> to \<open>ready_queue_tail\<close> is the list of the threads of its
  nodes, head first; the empty list is \<open>ready_queue_head == nullptr\<close>.
  \<open>current_thread\<close> is \<open>Thread::CurrentThread()\<close>.
\<close>

record Scheduler =
  ready_queue :: "Thread list"
  queue_size :: int
  current_thread :: "Thread option"

text \<open>
  Modelled from the spec: \<open>Thread::dispatch_to\<close> of \<open>thread.C\<close>, as above.
\<close>

definition dispatch_to :: "Thread \<Rightarrow> Scheduler \<Rightarrow> Scheduler" where
  "dispatch_to t s = s\<lparr>current_thread := Some t\<rparr>"

definition resume :: "Thread option \<Rightarrow> Scheduler \<Rightarrow> Scheduler" where
  "resume thread s =
     (case thread of
        None \<Rightarrow> s
      | Some t \<Rightarrow> s\<lparr>ready_queue := ready_queue s @ [t], queue_size := queue_size s + 1\<rparr>)"

definition yield :: "Scheduler \<Rightarrow> Scheduler" where
  "yield s =
     (let s1 = (if current_thread s \<noteq> None then resume (current_thread s) s else s)
      in case ready_queue s1 of
           [] \<Rightarrow> s1
         | next_thread # rest \<Rightarrow>
             dispatch_to next_thread (s1\<lparr>ready_queue := rest, queue_size := queue_size s1 - 1\<rparr>))"

definition add :: "Thread option \<Rightarrow> Scheduler \<Rightarrow> Scheduler" where
  "add thread s = resume thread s"

text \<open>
  The search of \<open>terminate\<close>: \<open>previous\<close> are the nodes already passed, in order,
  the third argument the nodes from \<open>current\<close> on. The result is the list without
  the node found, \<open>None\<close> when the walk reaches the end.
\<close>

fun terminate_walk :: "Thread \<Rightarrow> Thread list \<Rightarrow> Thread list \<Rightarrow> Thread list option" where
  "terminate_walk t previous [] = None"
| "terminate_walk t previous (current # rest) =
     (if current = t then Some (previous @ rest)
      else terminate_walk t (previous @ [current]) rest)"

definition terminate :: "Thread option \<Rightarrow> Scheduler \<Rightarrow> Scheduler" where
  "terminate thread s =
     (case thread of
        None \<Rightarrow> s
      | Some t \<Rightarrow>
          (case terminate_walk t [] (ready_queue s) of
             None \<Rightarrow> s
           | Some q \<Rightarrow> s\<lparr>ready_queue := q, queue_size := queue_size s - 1\<rparr>))"

section \<open>NonBlockingDisk\<close>

text \<open>
  \<open>src/unnamed/part_003\<close> (\<open>nonblocking_disk.C\<close>, the interrupt-driven version).
  The blocked queue is the list of the threads of its nodes, head first.
  \<open>SCHEDULER\<close> is the global \<open>System::SCHEDULER\<close>, \<open>None\<close> for \<open>nullptr\<close>.
  \<open>is_busy()\<close> reads the status port of the device: its result at the time of the
  call is the argument \<open>busy\<close>.
\<close>

record NonBlockingDisk =
  blocked_queue :: "Thread list"
  waiting_for_interrupt :: bool
  SCHEDULER :: "Scheduler option"

definition wake_next_blocked_thread :: "NonBlockingDisk \<Rightarrow> NonBlockingDisk" where
  "wake_next_blocked_thread d =
     (case blocked_queue d of
        [] \<Rightarrow> d
      | node_to_wake # rest \<Rightarrow>
          (case SCHEDULER d of
             None \<Rightarrow> d
           | Some sched \<Rightarrow>
               let d1 = d\<lparr>blocked_queue := rest\<rparr>;
                   d2 = (if rest = [] then d1\<lparr>waiting_for_interrupt := False\<rparr> else d1)
               in d2\<lparr>SCHEDULER := Some (resume (Some node_to_wake) sched)\<rparr>))"

definition handle_interrupt :: "bool \<Rightarrow> NonBlockingDisk \<Rightarrow> NonBlockingDisk" where
  "handle_interrupt busy d = (if \<not> busy then wake_next_blocked_thread d else d)"

section \<open>FileSystem and File\<close>

text \<open>
  \<open>src/unnamed/part_001\<close> (\<open>file_system.C\<close>) and \<open>src/unnamed/part_003\<close>
  (\<open>file.C\<close>). The disk is an ideal block store: \<open>disk -> write(b, buf)\<close> stores
  the 512 bytes at \<open>buf\<close> under the block number, \<open>disk -> read(b, buf)\<close> gives
  back what was stored last; the device's ports and its waiting are outside the model.
  The model is of a mounted file system (\<open>disk\<close>, \<open>inodes\<close> and \<open>free_blocks\<close>
  are not null): \<open>inodes\<close> has \<open>MAX_INODES\<close> entries and \<open>free_blocks\<close> one
  byte for each of the \<open>size / BLOCK_SIZE\<close> blocks. The field \<open>size\<close> is
  \<open>fs_size\<close> here and the field \<open>id\<close> of an inode is \<open>inode_id\<close>.
  The \<open>unsigned int\<close> counters are \<open>nat\<close>; they stay below
  \<open>MAX_BLOCKS * BLOCK_SIZE\<close>, and the two subtractions that could wrap are written
  with \<open>usub32\<close>.
\<close>

type_synonym byte = "8 word"

text \<open>
  Modelled from the spec: the constant \<open>SimpleDisk::BLOCK_SIZE\<close> of \<open>simple_disk.H\<close>,
  which is not among the sources; the spec gives a block 512 bytes.
\<close>

definition BLOCK_SIZE :: nat where
  "BLOCK_SIZE = 512"

record Inode =
  inode_id :: int
  block_numbers_block :: nat
  num_blocks :: nat
  file_length :: nat

record FileSystem =
  disk :: "nat \<Rightarrow> byte list"
  fs_size :: nat
  inodes :: "Inode list"
  free_blocks :: "byte list"

text \<open>
  The array of \<open>BLOCK_SIZE / sizeof(unsigned int)\<close> block numbers that the code
  reads from and writes to a block through a cast to \<open>unsigned char *\<close>: each number
  is four bytes, the low byte first (x86).
\<close>

definition uint_bytes :: "nat \<Rightarrow> byte list" where
  "uint_bytes n =
     [of_nat (n mod 256), of_nat (n div 256 mod 256),
      of_nat (n div 65536 mod 256), of_nat (n div 16777216 mod 256)]"

definition bytes_uint :: "byte list \<Rightarrow> nat \<Rightarrow> nat" where
  "bytes_uint bs i =
     unat (bs ! (4 * i)) + 256 * unat (bs ! (4 * i + 1))
       + 65536 * unat (bs ! (4 * i + 2)) + 16777216 * unat (bs ! (4 * i + 3))"

definition block_nums_bytes :: "nat list \<Rightarrow> byte list" where
  "block_nums_bytes nums = concat (map uint_bytes nums)"

definition bytes_block_nums :: "byte list \<Rightarrow> nat list" where
  "bytes_block_nums bs = map (bytes_uint bs) [0..<BLOCK_SIZE div 4]"

text \<open>
  \<open>SaveInodes\<close> writes the first block of the memory at \<open>inodes\<close>. The layout of
  the class \<open>Inode\<close> is in \<open>file_system.H\<close>, which is not among the sources: the
  bytes are given by the parameter \<open>img\<close>. \<open>SaveFreeList\<close> writes the first
  block of the byte array \<open>free_blocks\<close>.
\<close>

definition SaveInodes :: "(Inode list \<Rightarrow> byte list) \<Rightarrow> FileSystem \<Rightarrow> FileSystem" where
  "SaveInodes img fs = fs\<lparr>disk := (disk fs)(0 := img (inodes fs))\<rparr>"

definition SaveFreeList :: "FileSystem \<Rightarrow> FileSystem" where
  "SaveFreeList fs = fs\<lparr>disk := (disk fs)(1 := take BLOCK_SIZE (free_blocks fs))\<rparr>"

text \<open>
  The three linear scans. A pointer to an inode is the inode's index in the table;
  \<open>None\<close> is \<open>nullptr\<close> for \<open>LookupFile\<close> and \<open>-1\<close> for the other two.
\<close>

definition LookupFile :: "FileSystem \<Rightarrow> int \<Rightarrow> nat option" where
  "LookupFile fs file_id =
     List.find (\<lambda>i. inode_id (inodes fs ! i) = file_id) [0..<List.length (inodes fs)]"

definition GetFreeInode :: "FileSystem \<Rightarrow> nat option" where
  "GetFreeInode fs =
     List.find (\<lambda>i. inode_id (inodes fs ! i) = 0) [0..<List.length (inodes fs)]"

definition GetFreeBlock :: "FileSystem \<Rightarrow> nat option" where
  "GetFreeBlock fs =
     (let num_blocks = fs_size fs div BLOCK_SIZE
      in List.find (\<lambda>i. free_blocks fs ! i = 0) [2..<num_blocks])"

definition CreateFile :: "(Inode list \<Rightarrow> byte list) \<Rightarrow> int \<Rightarrow> FileSystem \<Rightarrow> bool \<times> FileSystem" where
  "CreateFile img file_id fs =
     (if LookupFile fs file_id \<noteq> None then (False, fs)
      else
        (case GetFreeInode fs of
           None \<Rightarrow> (False, fs)
         | Some inode_idx \<Rightarrow>
             (case GetFreeBlock fs of
                None \<Rightarrow> (False, fs)
              | Some block_nums_block \<Rightarrow>
                  let block_nums = replicate (BLOCK_SIZE div 4) 0;
                      fs1 = fs\<lparr>disk := (disk fs)(block_nums_block := block_nums_bytes block_nums)\<rparr>;
                      fs2 = fs1\<lparr>inodes := (inodes fs1)[inode_idx :=
                               \<lparr>inode_id = file_id, block_numbers_block = block_nums_block,
                                num_blocks = 0, file_length = 0\<rparr>]\<rparr>;
                      fs3 = fs2\<lparr>free_blocks := (free_blocks fs2)[block_nums_block := 1]\<rparr>
                  in (True, SaveFreeList (SaveInodes img fs3)))))"

record File =
  inode :: "nat option"
  current_position :: nat
  cached_block_idx :: nat
  block_cache :: "byte list"

text \<open>The constructor \<open>File(fs, id)\<close>; \<open>(unsigned int)-1\<close> marks an empty cache.\<close>

definition File_init :: "FileSystem \<Rightarrow> int \<Rightarrow> File" where
  "File_init fs file_id =
     \<lparr>inode = LookupFile fs file_id, current_position = 0,
      cached_block_idx = 2 ^ 32 - 1, block_cache = replicate BLOCK_SIZE 0\<rparr>"

text \<open>
  The copy loops \<open>for (i = 0; i < copy_count; i++) dst[doff + i] = src[soff + i]\<close>.
\<close>

definition copy_bytes :: "byte list \<Rightarrow> nat \<Rightarrow> byte list \<Rightarrow> nat \<Rightarrow> nat \<Rightarrow> byte list" where
  "copy_bytes dst doff src soff copy_count =
     fold (\<lambda>i d. d[doff + i := src ! (soff + i)]) [0..<copy_count] dst"

text \<open>The load of a block into the cache, the same statements in \<open>Read\<close> and \<open>Write\<close>.\<close>

definition load_block :: "FileSystem \<Rightarrow> nat list \<Rightarrow> nat \<Rightarrow> File \<Rightarrow> File" where
  "load_block fs block_nums block_idx f =
     f\<lparr>block_cache := (if block_nums ! block_idx \<noteq> 0 then disk fs (block_nums ! block_idx)
                        else replicate BLOCK_SIZE 0),
       cached_block_idx := block_idx\<rparr>"

subsection \<open>Write\<close>

text \<open>
  The state of the loop of \<open>Write\<close>. \<open>MAX_BLOCKS\<close> is \<open>Inode::MAX_BLOCKS\<close> of
  \<open>file_system.H\<close>, which is not among the sources: it is a parameter. The array
  \<open>block_nums\<close> has \<open>BLOCK_SIZE / 4 = 128\<close> entries, so the code is within its
  bounds only for \<open>MAX_BLOCKS \<le> 128\<close>.
\<close>

record write_state =
  ws_block_nums :: "nat list"
  ws_bytes_written :: nat
  ws_file :: File
  ws_fs :: FileSystem

text \<open>The allocation of a new data block; \<open>None\<close> is a \<open>break\<close>.\<close>

definition allocate_block :: "nat \<Rightarrow> nat \<Rightarrow> write_state \<Rightarrow> write_state option" where
  "allocate_block MAX_BLOCKS ino st =
     (let fs = ws_fs st; node = inodes fs ! ino
      in if num_blocks node \<ge> MAX_BLOCKS then None
         else
           (case GetFreeBlock fs of
              None \<Rightarrow> None
            | Some new_block \<Rightarrow>
                let block_nums' = (ws_block_nums st)[num_blocks node := new_block];
                    fs1 = fs\<lparr>free_blocks := (free_blocks fs)[new_block := 1]\<rparr>;
                    fs2 = fs1\<lparr>inodes := (inodes fs1)[ino := node\<lparr>num_blocks := num_blocks node + 1\<rparr>]\<rparr>;
                    f1 = (ws_file st)\<lparr>block_cache := replicate BLOCK_SIZE 0\<rparr>;
                    fs3 = fs2\<lparr>disk := (disk fs2)(new_block := block_cache f1)\<rparr>;
                    fs4 = fs3\<lparr>disk := (disk fs3)(block_numbers_block node := block_nums_bytes block_nums')\<rparr>
                in Some (st\<lparr>ws_block_nums := block_nums', ws_file := f1, ws_fs := SaveFreeList fs4\<rparr>)))"

text \<open>One pass of the body of the loop; \<open>None\<close> is a \<open>break\<close>.\<close>

definition write_step :: "nat \<Rightarrow> byte list \<Rightarrow> nat \<Rightarrow> nat \<Rightarrow> write_state \<Rightarrow> write_state option" where
  "write_step MAX_BLOCKS buf to_write ino st =
     (let bytes_written = ws_bytes_written st;
          block_idx = (current_position (ws_file st) + bytes_written) div BLOCK_SIZE;
          offset_in_block = (current_position (ws_file st) + bytes_written) mod BLOCK_SIZE
      in case (if block_idx \<ge> num_blocks (inodes (ws_fs st) ! ino)
               then allocate_block MAX_BLOCKS ino st else Some st) of
           None \<Rightarrow> None
         | Some st1 \<Rightarrow>
             let f1 = ws_file st1; fs1 = ws_fs st1; block_nums = ws_block_nums st1;
                 f2 = (if block_idx \<noteq> cached_block_idx f1
                       then load_block fs1 block_nums block_idx f1 else f1);
                 remaining_in_block = BLOCK_SIZE - offset_in_block;
                 remaining_to_write = to_write - bytes_written;
                 copy_count = (if remaining_in_block < remaining_to_write
                               then remaining_in_block else remaining_to_write);
                 f3 = f2\<lparr>block_cache :=
                          copy_bytes (block_cache f2) offset_in_block buf bytes_written copy_count\<rparr>;
                 fs2 = fs1\<lparr>disk := (disk fs1)(block_nums ! block_idx := block_cache f3)\<rparr>
             in Some (st1\<lparr>ws_file := f3, ws_fs := fs2,
                          ws_bytes_written := bytes_written + copy_count\<rparr>))"

lemma write_step_progress:
  assumes "write_step MAX_BLOCKS buf to_write ino st = Some st'"
    and "ws_bytes_written st < to_write"
  shows "ws_bytes_written st < ws_bytes_written st' \<and> ws_bytes_written st' \<le> to_write"
proof -
  have m: "(current_position (ws_file st) + ws_bytes_written st) mod BLOCK_SIZE < BLOCK_SIZE"
    by (simp add: BLOCK_SIZE_def)
  from assms(1) obtain st1 where
    b: "ws_bytes_written st' = ws_bytes_written st +
          (if BLOCK_SIZE - (current_position (ws_file st) + ws_bytes_written st) mod BLOCK_SIZE
                < to_write - ws_bytes_written st
           then BLOCK_SIZE - (current_position (ws_file st) + ws_bytes_written st) mod BLOCK_SIZE
           else to_write - ws_bytes_written st)"
    by (auto simp: write_step_def Let_def split: option.splits)
  show ?thesis using m assms(2) unfolding b by (cases "BLOCK_SIZE - (current_position (ws_file st) + ws_bytes_written st) mod BLOCK_SIZE < to_write - ws_bytes_written st") (simp_all, arith)
qed

function write_loop :: "nat \<Rightarrow> byte list \<Rightarrow> nat \<Rightarrow> nat \<Rightarrow> write_state \<Rightarrow> write_state" where
  "write_loop MAX_BLOCKS buf to_write ino st =
     (if ws_bytes_written st < to_write then
        (case write_step MAX_BLOCKS buf to_write ino st of
           None \<Rightarrow> st
         | Some st' \<Rightarrow> write_loop MAX_BLOCKS buf to_write ino st')
      else st)"
  by pat_completeness auto
termination
proof (relation "measure (\<lambda>(MAX_BLOCKS, buf, to_write, ino, st). to_write - ws_bytes_written st)")
  show "wf (measure (\<lambda>(MAX_BLOCKS, buf, to_write, ino, st). to_write - ws_bytes_written st))"
    by simp
next
  fix MAX_BLOCKS :: nat and buf :: "byte list" and to_write ino :: nat and st x2 :: write_state
  assume "ws_bytes_written st < to_write"
    and "write_step MAX_BLOCKS buf to_write ino st = Some x2"
  then show "((MAX_BLOCKS, buf, to_write, ino, x2), (MAX_BLOCKS, buf, to_write, ino, st))
      \<in> measure (\<lambda>(MAX_BLOCKS, buf, to_write, ino, st). to_write - ws_bytes_written st)"
    using write_step_progress [of MAX_BLOCKS buf to_write ino st x2] by (simp, arith)
qed

declare write_loop.simps [simp del]

definition Write :: "nat \<Rightarrow> nat \<Rightarrow> byte list \<Rightarrow> File \<times> FileSystem \<Rightarrow> nat \<times> File \<times> FileSystem" where
  "Write MAX_BLOCKS n buf ffs =
     (let f = fst ffs; fs = snd ffs
      in case inode f of
           None \<Rightarrow> (0, f, fs)
         | Some ino \<Rightarrow>
             if block_numbers_block (inodes fs ! ino) = 0 then (0, f, fs)
             else
               let max_file_size = MAX_BLOCKS * BLOCK_SIZE;
                   max_write = usub32 max_file_size (current_position f);
                   to_write = (if n < max_write then n else max_write);
                   block_nums = bytes_block_nums (disk fs (block_numbers_block (inodes fs ! ino)));
                   st = write_loop MAX_BLOCKS buf to_write ino
                          \<lparr>ws_block_nums = block_nums, ws_bytes_written = 0,
                           ws_file = f, ws_fs = fs\<rparr>;
                   bytes_written = ws_bytes_written st;
                   f1 = (ws_file st)\<lparr>current_position :=
                           current_position (ws_file st) + bytes_written\<rparr>;
                   fs1 = ws_fs st;
                   fs2 = (if current_position f1 > file_length (inodes fs1 ! ino)
                          then fs1\<lparr>inodes := (inodes fs1)[ino :=
                                  (inodes fs1 ! ino)\<lparr>file_length := current_position f1\<rparr>]\<rparr>
                          else fs1)
               in (bytes_written, f1, fs2))"

subsection \<open>Read\<close>

text \<open>
  The state of the loop of \<open>Read\<close>: the count, the caller's buffer and the file
  handle (its cache). The file system is only read.
\<close>

record read_state =
  rs_bytes_read :: nat
  rs_buf :: "byte list"
  rs_file :: File

definition read_step :: "FileSystem \<Rightarrow> nat \<Rightarrow> nat list \<Rightarrow> nat \<Rightarrow> read_state \<Rightarrow> read_state option" where
  "read_step fs ino block_nums to_read st =
     (let bytes_read = rs_bytes_read st; f = rs_file st;
          block_idx = (current_position f + bytes_read) div BLOCK_SIZE;
          offset_in_block = (current_position f + bytes_read) mod BLOCK_SIZE
      in if block_idx \<ge> num_blocks (inodes fs ! ino) \<or> block_nums ! block_idx = 0 then None
         else
           let f1 = (if block_idx \<noteq> cached_block_idx f
                     then load_block fs block_nums block_idx f else f);
               remaining_in_block = BLOCK_SIZE - offset_in_block;
               remaining_to_read = to_read - bytes_read;
               copy_count = (if remaining_in_block < remaining_to_read
                             then remaining_in_block else remaining_to_read)
           in Some \<lparr>rs_bytes_read = bytes_read + copy_count,
                    rs_buf = copy_bytes (rs_buf st) bytes_read (block_cache f1) offset_in_block copy_count,
                    rs_file = f1\<rparr>)"

lemma read_step_progress:
  assumes "read_step fs ino block_nums to_read st = Some st'"
    and "rs_bytes_read st < to_read"
  shows "rs_bytes_read st < rs_bytes_read st' \<and> rs_bytes_read st' \<le> to_read"
proof -
  have m: "(current_position (rs_file st) + rs_bytes_read st) mod BLOCK_SIZE < BLOCK_SIZE"
    by (simp add: BLOCK_SIZE_def)
  from assms(1) have
    b: "rs_bytes_read st' = rs_bytes_read st +
          (if BLOCK_SIZE - (current_position (rs_file st) + rs_bytes_read st) mod BLOCK_SIZE
                < to_read - rs_bytes_read st
           then BLOCK_SIZE - (current_position (rs_file st) + rs_bytes_read st) mod BLOCK_SIZE
           else to_read - rs_bytes_read st)"
    by (auto simp: read_step_def Let_def split: if_splits)
  show ?thesis using m assms(2) unfolding b by (cases "BLOCK_SIZE - (current_position (rs_file st) + rs_bytes_read st) mod BLOCK_SIZE < to_read - rs_bytes_read st") (simp_all, arith)
qed

function read_loop :: "FileSystem \<Rightarrow> nat \<Rightarrow> nat list \<Rightarrow> nat \<Rightarrow> read_state \<Rightarrow> read_state" where
  "read_loop fs ino block_nums to_read st =
     (if rs_bytes_read st < to_read then
        (case read_step fs ino block_nums to_read st of
           None \<Rightarrow> st
         | Some st' \<Rightarrow> read_loop fs ino block_nums to_read st')
      else st)"
  by pat_completeness auto
termination
proof (relation "measure (\<lambda>(fs, ino, block_nums, to_read, st). to_read - rs_bytes_read st)")
  show "wf (measure (\<lambda>(fs, ino, block_nums, to_read, st). to_read - rs_bytes_read st))"
    by simp
next
  fix fs :: FileSystem and ino :: nat and block_nums :: "nat list" and to_read :: nat
    and st x2 :: read_state
  assume "rs_bytes_read st < to_read"
    and "read_step fs ino block_nums to_read st = Some x2"
  then show "((fs, ino, block_nums, to_read, x2), (fs, ino, block_nums, to_read, st))
      \<in> measure (\<lambda>(fs, ino, block_nums, to_read, st). to_read - rs_bytes_read st)"
    using read_step_progress [of fs ino block_nums to_read st x2] by (simp, arith)
qed

declare read_loop.simps [simp del]

text \<open>
  \<open>Read\<close> returns the count, the caller's buffer after the copies, and the handle.
\<close>

definition Read :: "nat \<Rightarrow> byte list \<Rightarrow> File \<times> FileSystem \<Rightarrow> nat \<times> byte list \<times> File" where
  "Read n buf ffs =
     (let f = fst ffs; fs = snd ffs
      in case inode f of
           None \<Rightarrow> (0, buf, f)
         | Some ino \<Rightarrow>
             if block_numbers_block (inodes fs ! ino) = 0 then (0, buf, f)
             else
               let available = usub32 (file_length (inodes fs ! ino)) (current_position f);
                   to_read = (if n < available then n else available);
                   block_nums = bytes_block_nums (disk fs (block_numbers_block (inodes fs ! ino)));
                   st = read_loop fs ino block_nums to_read
                          \<lparr>rs_bytes_read = 0, rs_buf = buf, rs_file = f\<rparr>;
                   f1 = (rs_file st)\<lparr>current_position :=
                           current_position (rs_file st) + rs_bytes_read st\<rparr>
               in (rs_bytes_read st, rs_buf st, f1))"

definition Reset :: "File \<Rightarrow> File" where
  "Reset f = f\<lparr>current_position := 0, cached_block_idx := 2 ^ 32 - 1\<rparr>"

definition EoF :: "File \<times> FileSystem \<Rightarrow> bool" where
  "EoF ffs =
     (case inode (fst ffs) of
        None \<Rightarrow> True
      | Some ino \<Rightarrow> current_position (fst ffs) \<ge> file_length (inodes (snd ffs) ! ino))"

subsection \<open>What a written file looks like, and two small disks\<close>

text \<open>
  Predicates used to state what the loops of \<open>Write\<close> and \<open>Read\<close> keep true; they
  are not part of the code. \<open>block_content S j\<close> is the \<open>j\<close>-th block of 512 bytes
  of the byte sequence \<open>S\<close>, the last one filled up with zeros.
\<close>

definition block_content :: "byte list \<Rightarrow> nat \<Rightarrow> byte list" where
  "block_content S j = take BLOCK_SIZE (drop (BLOCK_SIZE * j) S @ replicate BLOCK_SIZE 0)"

text \<open>
  The state of the loop of \<open>Write\<close> while it writes \<open>S\<close> from position 0 to the
  new file of inode \<open>ino\<close> with block-numbers block \<open>b\<close>: whole blocks have been
  written so far, the data blocks hold the blocks of \<open>S\<close>, they are marked used and
  are not \<open>b\<close>, the block \<open>b\<close> holds the array \<open>block_nums\<close>, and the cache is
  empty or holds a block of the file.
\<close>

definition write_inv :: "byte list \<Rightarrow> nat \<Rightarrow> nat \<Rightarrow> write_state \<Rightarrow> bool" where
  "write_inv S b ino st =
     (let fs = ws_fs st; f = ws_file st; nums = ws_block_nums st;
          bw = ws_bytes_written st; node = inodes fs ! ino; nb = num_blocks node
      in current_position f = 0 \<and> inode f = Some ino \<and>
         bw \<le> List.length S \<and> bw \<le> BLOCK_SIZE * nb \<and>
         (bw < List.length S \<longrightarrow> bw = BLOCK_SIZE * nb) \<and>
         nb \<le> 128 \<and>
         List.length nums = 128 \<and> (\<forall>n \<in> set nums. n < 2 ^ 32) \<and>
         ino < List.length (inodes fs) \<and> block_numbers_block node = b \<and>
         file_length node = 0 \<and>
         2 \<le> b \<and> b < List.length (free_blocks fs) \<and> free_blocks fs ! b = 1 \<and>
         List.length (free_blocks fs) = fs_size fs div BLOCK_SIZE \<and> fs_size fs < 2 ^ 32 \<and>
         (\<forall>j < nb. 2 \<le> nums ! j \<and> nums ! j < List.length (free_blocks fs) \<and>
                   nums ! j \<noteq> b \<and> free_blocks fs ! (nums ! j) = 1 \<and>
                   disk fs (nums ! j) = block_content S j) \<and>
         disk fs b = block_nums_bytes nums \<and>
         (cached_block_idx f = 2 ^ 32 - 1 \<or> cached_block_idx f < nb))"

text \<open>The blocks listed in \<open>nums\<close> for inode \<open>ino\<close> hold \<open>S\<close>.\<close>

definition file_on_disk :: "byte list \<Rightarrow> FileSystem \<Rightarrow> nat \<Rightarrow> nat list \<Rightarrow> bool" where
  "file_on_disk S fs ino nums =
     (List.length S \<le> BLOCK_SIZE * num_blocks (inodes fs ! ino) \<and>
      num_blocks (inodes fs ! ino) \<le> 128 \<and>
      (\<forall>j < num_blocks (inodes fs ! ino).
          nums ! j \<noteq> 0 \<and> disk fs (nums ! j) = block_content S j))"

text \<open>
  The state of the loop of \<open>Read\<close> while it reads back \<open>S\<close> from position 0:
  the buffer agrees with \<open>S\<close> on the bytes read so far, and the cache is empty or
  holds a block that lies before the next one.
\<close>

definition read_inv :: "byte list \<Rightarrow> read_state \<Rightarrow> bool" where
  "read_inv S st =
     (let br = rs_bytes_read st; f = rs_file st
      in current_position f = 0 \<and> br \<le> List.length S \<and>
         (br < List.length S \<longrightarrow> BLOCK_SIZE dvd br) \<and>
         List.length (rs_buf st) = List.length S \<and>
         take br (rs_buf st) = take br S \<and>
         (br < List.length S \<longrightarrow>
            cached_block_idx f = 2 ^ 32 - 1 \<or> BLOCK_SIZE * (cached_block_idx f + 1) \<le> br))"

text \<open>
  The number of blocks that \<open>GetFreeBlock\<close> can hand out, and the number of
  blocks that \<open>n\<close> bytes take.
\<close>

definition free_block_count :: "FileSystem \<Rightarrow> nat" where
  "free_block_count fs =
     List.length (filter (\<lambda>i. free_blocks fs ! i = 0) [2..<fs_size fs div BLOCK_SIZE])"

definition blocks_needed :: "nat \<Rightarrow> nat" where
  "blocks_needed n = (n + (BLOCK_SIZE - 1)) div BLOCK_SIZE"

text \<open>
  A mounted file system of \<open>nblocks\<close> blocks with one free inode, the blocks 0 and
  1 used; the file 1 created on it; and the result of writing the byte 7 to that
  file, with \<open>MAX_BLOCKS = 128\<close>.
\<close>

definition example_img :: "Inode list \<Rightarrow> byte list" where
  "example_img nodes = replicate BLOCK_SIZE 0"

definition example_fs :: "nat \<Rightarrow> FileSystem" where
  "example_fs nblocks =
     \<lparr>disk = (\<lambda>b. replicate BLOCK_SIZE 0), fs_size = nblocks * BLOCK_SIZE,
      inodes = [\<lparr>inode_id = 0, block_numbers_block = 0, num_blocks = 0, file_length = 0\<rparr>],
      free_blocks = 1 # 1 # replicate (nblocks - 2) 0\<rparr>"

definition example_created :: "nat \<Rightarrow> FileSystem" where
  "example_created nblocks = snd (CreateFile example_img 1 (example_fs nblocks))"

definition example_written :: "nat \<Rightarrow> nat \<times> File \<times> FileSystem" where
  "example_written nblocks =
     Write 128 1 [7] (File_init (example_created nblocks) 1, example_created nblocks)"

text \<open>A sequence of 1000 bytes, which takes two blocks.\<close>

definition example_bytes :: "byte list" where
  "example_bytes = map of_nat [0..<1000]"

chapter \<open>Properties\<close>

section \<open>C9: the number of info frames\<close>

lemma int_mod_eq_0_iff: "(int a mod int b = 0) = (a mod b = 0)"
  by (simp flip: of_nat_mod)

lemma neg_div_nat:
  assumes "0 < b"
  shows "- (- int a div int b) = int (a div b + (if 0 < a mod b then 1 else 0))"
proof (cases "a mod b = 0")
  case True
  then have "int a mod int b = 0" by (simp only: int_mod_eq_0_iff)
  then have "- int a div int b = - (int a div int b)"
    using assms by (simp only: zdiv_zminus1_eq_if) simp
  then show ?thesis using True by (simp add: of_nat_div)
next
  case False
  then have "int a mod int b \<noteq> 0" by (simp add: int_mod_eq_0_iff)
  then have "- int a div int b = - (int a div int b) - 1"
    using assms by (simp only: zdiv_zminus1_eq_if) simp
  then show ?thesis using False by (simp add: of_nat_div)
qed

lemma ceiling_nat_div:
  assumes "0 < b"
  shows "\<lceil>real a / real b\<rceil> = int (a div b + (if 0 < a mod b then 1 else 0))"
proof -
  have "\<lceil>real a / real b\<rceil> = \<lceil>(of_int (int a) :: real) / of_int (int b)\<rceil>" by simp
  also have "\<dots> = - (- int a div int b)" by (rule ceiling_divide_eq_div)
  also have "\<dots> = int (a div b + (if 0 < a mod b then 1 else 0))"
    by (rule neg_div_nat [OF assms])
  finally show ?thesis .
qed

lemma needed_info_frames_unat:
  assumes b: "unat n < 2 ^ 31"
  shows "unat (needed_info_frames n) =
           (unat n * 2) div 32768 + (if 0 < (unat n * 2) mod 32768 then 1 else 0)"
proof -
  have m: "unat (n * 2) = unat n * 2" using b by (simp add: unat_word_ariths)
  have d: "unat ((n * 2) div 32768) = (unat n * 2) div 32768" by (simp add: unat_div m)
  have r: "unat ((n * 2) mod 32768) = (unat n * 2) mod 32768" by (simp add: unat_mod m)
  have pos: "(0 < (n * 2) mod 32768) = (0 < (unat n * 2) mod 32768)"
    by (simp add: word_less_nat_alt r)
  show ?thesis
    using b by (auto simp add: needed_info_frames_def Let_def pos unat_word_ariths d)
qed

lemma needed_info_frames_MP2_unat:
  assumes b: "unat n \<le> 2 ^ 32 - 4096"
  shows "unat (needed_info_frames_MP2 n) = (unat n + 4095) div 4096"
proof -
  have a: "unat (n + 4096 - 1) = unat n + 4095" using b by (simp add: unat_word_ariths)
  show ?thesis
    unfolding needed_info_frames_MP2_def FRAME_SIZE_def unat_div a by simp
qed

lemma ceil_div_4096:
  "(a + 4095) div 4096 = a div 4096 + (if 0 < a mod 4096 then 1 else (0::nat))"
proof -
  define q r where "q = a div 4096" and "r = a mod 4096"
  have a: "a = q * 4096 + r" and r: "r < 4096" by (simp_all add: q_def r_def)
  have "(a + 4095) div 4096 = q + (r + 4095) div 4096"
    unfolding a by (simp add: add.assoc)
  moreover have "(r + 4095) div 4096 = (if 0 < r then 1 else 0)"
  proof (cases "0 < r")
    case True
    have "(r + 4095) div 4096 = 1"
      by (rule Euclidean_Rings.div_nat_eqI) (use True r in simp_all)
    then show ?thesis using True by simp
  next
    case False
    then show ?thesis by simp
  qed
  ultimately show ?thesis by (simp add: q_def r_def)
qed

text \<open>
  Claim C9, as the code has it. \<open>needed_info_frames(n)\<close> of the pools with two bits
  per frame (MP3, MP5) is \<open>ceil(2 * n / (4096 * 8))\<close> for every \<open>n\<close> below
  \<open>2 ^ 31\<close>: the product \<open>_n_frames * 2\<close> is formed in 32 bits. The pool of MP2
  keeps one byte per frame and returns \<open>ceil(n / 4096)\<close>, for every \<open>n\<close> up to
  \<open>2 ^ 32 - 4096\<close>.
\<close>

theorem needed_info_frames_value:
  "(unat n < 2 ^ 31 \<longrightarrow>
      int (unat (needed_info_frames n)) = \<lceil>(2 * real (unat n)) / (4096 * 8)\<rceil>) \<and>
   (unat n \<le> 2 ^ 32 - 4096 \<longrightarrow>
      int (unat (needed_info_frames_MP2 n)) = \<lceil>real (unat n) / 4096\<rceil>)"
proof (intro conjI impI)
  assume b: "unat n < 2 ^ 31"
  have "\<lceil>(2 * real (unat n)) / (4096 * 8)\<rceil> = \<lceil>real (unat n * 2) / real 32768\<rceil>" by simp
  also have "\<dots> = int ((unat n * 2) div 32768 + (if 0 < (unat n * 2) mod 32768 then 1 else 0))"
    by (rule ceiling_nat_div) simp
  finally show "int (unat (needed_info_frames n)) = \<lceil>(2 * real (unat n)) / (4096 * 8)\<rceil>"
    using needed_info_frames_unat [OF b] by simp
next
  assume b: "unat n \<le> 2 ^ 32 - 4096"
  have "\<lceil>real (unat n) / 4096\<rceil> = \<lceil>real (unat n) / real 4096\<rceil>" by simp
  also have "\<dots> = int (unat n div 4096 + (if 0 < unat n mod 4096 then 1 else 0))"
    by (rule ceiling_nat_div) simp
  also have "\<dots> = int ((unat n + 4095) div 4096)" by (simp only: ceil_div_4096)
  finally show "int (unat (needed_info_frames_MP2 n)) = \<lceil>real (unat n) / 4096\<rceil>"
    using needed_info_frames_MP2_unat [OF b] by simp
qed

text \<open>The theorem at \<open>n = 5000\<close>.\<close>

theorem needed_info_frames_value_witness:
  "unat (5000 :: 32 word) < 2 ^ 31 \<and>
   int (unat (needed_info_frames 5000)) = \<lceil>(2 * real (unat (5000 :: 32 word))) / (4096 * 8)\<rceil> \<and>
   unat (5000 :: 32 word) \<le> 2 ^ 32 - 4096 \<and>
   int (unat (needed_info_frames_MP2 5000)) = \<lceil>real (unat (5000 :: 32 word)) / 4096\<rceil>"
  using needed_info_frames_value [of 5000] by simp

text \<open>
  The claim as stated, for every \<open>n\<close> and every pool, fails: the pool of MP2 needs 2
  info frames for 4097 frames where the formula gives 1, and for \<open>n = 2 ^ 31\<close> the
  product wraps to 0, so the two-bit pools return 0.
\<close>

theorem needed_info_frames_counterexample:
  "int (unat (needed_info_frames_MP2 4097)) \<noteq> \<lceil>(2 * real (unat (4097 :: 32 word))) / (4096 * 8)\<rceil> \<and>
   int (unat (needed_info_frames 2147483648)) \<noteq> \<lceil>(2 * real (unat (2147483648 :: 32 word))) / (4096 * 8)\<rceil>"
  by (simp add: needed_info_frames_MP2_def needed_info_frames_def FRAME_SIZE_def)

section \<open>C7: yield\<close>

lemma disable_fields [simp]:
  "ready_queue_MP5 (disable_if_enabled s) = ready_queue_MP5 s"
  "qsize (disable_if_enabled s) = qsize s"
  "current_thread_MP5 (disable_if_enabled s) = current_thread_MP5 s"
  "interrupts_enabled (disable_if_enabled s) = False"
  by (simp_all add: disable_if_enabled_def)

lemma enable_fields [simp]:
  "ready_queue_MP5 (enable_if_disabled s) = ready_queue_MP5 s"
  "qsize (enable_if_disabled s) = qsize s"
  "current_thread_MP5 (enable_if_disabled s) = current_thread_MP5 s"
  "interrupts_enabled (enable_if_disabled s) = True"
  by (simp_all add: enable_if_disabled_def)

lemma yield_MP5_empty:
  assumes "qsize s = int (List.length (ready_queue_MP5 s))" and "ready_queue_MP5 s = []"
  shows "yield_MP5 s = Some (s\<lparr>interrupts_enabled := False\<rparr>)"
  using assms by (simp add: yield_MP5_def Let_def disable_if_enabled_def)

lemma yield_MP5_nonempty:
  assumes "qsize s = int (List.length (ready_queue_MP5 s))" and "ready_queue_MP5 s = t # q"
  shows "yield_MP5 s = Some \<lparr>ready_queue_MP5 = q, qsize = qsize s - 1,
           interrupts_enabled = True, current_thread_MP5 = Some t\<rparr>"
  using assms
  by (simp add: yield_MP5_def Let_def dequeue_def dispatch_to_MP5_def enable_if_disabled_def disable_if_enabled_def)

lemma yield_MP6_current:
  assumes "current_thread s = Some c"
  shows "yield s = \<lparr>ready_queue = tl (ready_queue s @ [c]), queue_size = queue_size s,
           current_thread = Some (hd (ready_queue s @ [c]))\<rparr>"
  using assms by (cases "ready_queue s") (simp_all add: yield_def resume_def dispatch_to_def Let_def)

lemma yield_MP6_no_current:
  assumes "current_thread s = None"
  shows "yield s = (case ready_queue s of [] \<Rightarrow> s
           | next_thread # rest \<Rightarrow> \<lparr>ready_queue = rest, queue_size = queue_size s - 1,
               current_thread = Some next_thread\<rparr>)"
  using assms by (cases "ready_queue s") (simp_all add: yield_def dispatch_to_def Let_def)

text \<open>
  Claim C7, as the code has it. The scheduler of MP5 (with \<open>qsize\<close> the length of the
  queue) does what the claim says: \<open>yield\<close> dequeues the head and switches to it, leaves
  the caller running when the queue is empty (with the interrupts left disabled), and
  does not enqueue the caller. The scheduler of MP6 first enqueues the calling thread
  at the tail, when there is a current thread, then dequeues the head and switches to
  it: the caller is left in the ready queue, and with an empty queue it is the caller
  itself that is dequeued and dispatched to.
\<close>

theorem yield_behaviour:
  "(qsize s5 = int (List.length (ready_queue_MP5 s5)) \<longrightarrow>
      yield_MP5 s5 = Some (case ready_queue_MP5 s5 of
          [] \<Rightarrow> s5\<lparr>interrupts_enabled := False\<rparr>
        | t # q \<Rightarrow> \<lparr>ready_queue_MP5 = q, qsize = qsize s5 - 1,
                     interrupts_enabled = True, current_thread_MP5 = Some t\<rparr>)) \<and>
   yield s = (case current_thread s of
        None \<Rightarrow> (case ready_queue s of
                    [] \<Rightarrow> s
                  | next_thread # rest \<Rightarrow> \<lparr>ready_queue = rest, queue_size = queue_size s - 1,
                                           current_thread = Some next_thread\<rparr>)
      | Some c \<Rightarrow> \<lparr>ready_queue = tl (ready_queue s @ [c]), queue_size = queue_size s,
                    current_thread = Some (hd (ready_queue s @ [c]))\<rparr>)"
proof (intro conjI impI)
  assume "qsize s5 = int (List.length (ready_queue_MP5 s5))"
  then show "yield_MP5 s5 = Some (case ready_queue_MP5 s5 of
          [] \<Rightarrow> s5\<lparr>interrupts_enabled := False\<rparr>
        | t # q \<Rightarrow> \<lparr>ready_queue_MP5 = q, qsize = qsize s5 - 1,
                     interrupts_enabled = True, current_thread_MP5 = Some t\<rparr>)"
    by (cases "ready_queue_MP5 s5") (simp_all add: yield_MP5_empty yield_MP5_nonempty)
next
  show "yield s = (case current_thread s of
        None \<Rightarrow> (case ready_queue s of
                    [] \<Rightarrow> s
                  | next_thread # rest \<Rightarrow> \<lparr>ready_queue = rest, queue_size = queue_size s - 1,
                                           current_thread = Some next_thread\<rparr>)
      | Some c \<Rightarrow> \<lparr>ready_queue = tl (ready_queue s @ [c]), queue_size = queue_size s,
                    current_thread = Some (hd (ready_queue s @ [c]))\<rparr>)"
    by (cases "current_thread s") (simp_all add: yield_MP6_current yield_MP6_no_current)
qed

text \<open>The theorem for thread 1 yielding with the threads 2 and 3 ready.\<close>

theorem yield_behaviour_witness:
  "qsize \<lparr>ready_queue_MP5 = [2, 3], qsize = 2, interrupts_enabled = True,
           current_thread_MP5 = Some 1\<rparr>
     = int (List.length (ready_queue_MP5 \<lparr>ready_queue_MP5 = [2, 3], qsize = 2,
           interrupts_enabled = True, current_thread_MP5 = Some 1\<rparr>)) \<and>
   yield_MP5 \<lparr>ready_queue_MP5 = [2, 3], qsize = 2, interrupts_enabled = True,
           current_thread_MP5 = Some 1\<rparr>
     = Some \<lparr>ready_queue_MP5 = [3], qsize = 1, interrupts_enabled = True,
           current_thread_MP5 = Some 2\<rparr> \<and>
   yield \<lparr>ready_queue = [2, 3], queue_size = 2, current_thread = Some 1\<rparr>
     = \<lparr>ready_queue = [3, 1], queue_size = 2, current_thread = Some 2\<rparr>"
  using yield_behaviour [of "\<lparr>ready_queue_MP5 = [2, 3], qsize = 2, interrupts_enabled = True,
           current_thread_MP5 = Some 1\<rparr>"
      "\<lparr>ready_queue = [2, 3], queue_size = 2, current_thread = Some 1\<rparr>"]
  by simp

text \<open>
  The claim as stated, for every scheduler, fails in MP6: after thread 1 yields with
  thread 2 ready, thread 1 is in the ready queue.
\<close>

theorem yield_requeues_counterexample:
  "1 \<in> set (ready_queue (yield \<lparr>ready_queue = [2], queue_size = 1, current_thread = Some 1\<rparr>)) \<and>
   yield \<lparr>ready_queue = [], queue_size = 0, current_thread = Some 1\<rparr>
     = \<lparr>ready_queue = [], queue_size = 0, current_thread = Some 1\<rparr>"
  by (simp add: yield_def resume_def dispatch_to_def Let_def)

section \<open>C10: terminate\<close>

text \<open>
  The scheduler of MP6 unlinks the first node that holds the thread: the queue loses
  that one entry and keeps the order of the others.
\<close>

lemma terminate_walk_remove1:
  "terminate_walk t previous q =
     (if t \<in> set q then Some (previous @ remove1 t q) else None)"
  by (induction q arbitrary: previous) auto

lemma terminate_MP6_remove1:
  "terminate (Some t) s =
     (if t \<in> set (ready_queue s)
      then s\<lparr>ready_queue := remove1 t (ready_queue s), queue_size := queue_size s - 1\<rparr>
      else s)"
  by (simp add: terminate_def terminate_walk_remove1)

text \<open>
  Claim C10 fails in MP5. The loop of \<open>terminate\<close> rotates the queue once, but its
  bound \<open>qsize\<close> is decremented inside the loop when the thread is dropped, so the
  rotation stops one step short: with the threads 1, 2, 3 queued, \<open>terminate\<close> of
  thread 1 leaves 3 ahead of 2.
\<close>

theorem terminate_MP5_reorders:
  "terminate_MP5 1 \<lparr>ready_queue_MP5 = [1, 2, 3], qsize = 3, interrupts_enabled = True,
      current_thread_MP5 = Some 4\<rparr>
     = Some \<lparr>ready_queue_MP5 = [3, 2], qsize = 2, interrupts_enabled = True,
         current_thread_MP5 = Some 4\<rparr>"
  by (simp add: terminate_MP5_def terminate_loop_MP5.simps disable_if_enabled_def
      enable_if_disabled_def dequeue_def enqueue_def)

section \<open>C8: the disk interrupt wakes one thread\<close>

text \<open>
  Claim C8. With a scheduler installed (the constructor asserts it), one call of
  \<open>handle_interrupt\<close> with the disk ready and a blocked thread waiting takes exactly
  the head off the blocked queue and appends it to the ready queue; in every other
  case it changes nothing. So at most one thread is resumed.
\<close>

theorem handle_interrupt_wakes_head:
  assumes "SCHEDULER d = Some sched"
  shows "handle_interrupt busy d =
     (if \<not> busy \<and> blocked_queue d \<noteq> []
      then d\<lparr>blocked_queue := tl (blocked_queue d),
             waiting_for_interrupt := (if tl (blocked_queue d) = [] then False
                                       else waiting_for_interrupt d),
             SCHEDULER := Some (sched\<lparr>ready_queue := ready_queue sched @ [hd (blocked_queue d)],
                                      queue_size := queue_size sched + 1\<rparr>)\<rparr>
      else d)"
  using assms
  by (cases "blocked_queue d")
     (simp_all add: handle_interrupt_def wake_next_blocked_thread_def resume_def Let_def)

text \<open>The theorem for two blocked threads, with the disk ready and with the disk busy.\<close>

theorem handle_interrupt_wakes_head_witness:
  "SCHEDULER \<lparr>blocked_queue = [5, 6], waiting_for_interrupt = True,
       SCHEDULER = Some \<lparr>ready_queue = [7], queue_size = 1, current_thread = Some 8\<rparr>\<rparr>
     = Some \<lparr>ready_queue = [7], queue_size = 1, current_thread = Some 8\<rparr> \<and>
   handle_interrupt False \<lparr>blocked_queue = [5, 6], waiting_for_interrupt = True,
       SCHEDULER = Some \<lparr>ready_queue = [7], queue_size = 1, current_thread = Some 8\<rparr>\<rparr>
     = \<lparr>blocked_queue = [6], waiting_for_interrupt = True,
        SCHEDULER = Some \<lparr>ready_queue = [7, 5], queue_size = 2, current_thread = Some 8\<rparr>\<rparr> \<and>
   handle_interrupt True \<lparr>blocked_queue = [5, 6], waiting_for_interrupt = True,
       SCHEDULER = Some \<lparr>ready_queue = [7], queue_size = 1, current_thread = Some 8\<rparr>\<rparr>
     = \<lparr>blocked_queue = [5, 6], waiting_for_interrupt = True,
        SCHEDULER = Some \<lparr>ready_queue = [7], queue_size = 1, current_thread = Some 8\<rparr>\<rparr>"
  using handle_interrupt_wakes_head [of "\<lparr>blocked_queue = [5, 6], waiting_for_interrupt = True,
       SCHEDULER = Some \<lparr>ready_queue = [7], queue_size = 1, current_thread = Some 8\<rparr>\<rparr>"
       "\<lparr>ready_queue = [7], queue_size = 1, current_thread = Some 8\<rparr>" False]
    handle_interrupt_wakes_head [of "\<lparr>blocked_queue = [5, 6], waiting_for_interrupt = True,
       SCHEDULER = Some \<lparr>ready_queue = [7], queue_size = 1, current_thread = Some 8\<rparr>\<rparr>"
       "\<lparr>ready_queue = [7], queue_size = 1, current_thread = Some 8\<rparr>" True]
  by simp

section \<open>C6: VMPool::allocate\<close>

lemma pages_count_unat:
  assumes "unat sz \<le> 2 ^ 32 - 4096"
  shows "unat (((sz div PAGE_SIZE) + (if (sz mod PAGE_SIZE) > 0 then 1 else 0)) * PAGE_SIZE)
           = ((unat sz + 4095) div 4096) * 4096"
proof -
  have d: "unat (sz div 4096) = unat sz div 4096" by (simp add: unat_div)
  have r: "unat (sz mod 4096) = unat sz mod 4096" by (simp add: unat_mod)
  have pos: "(0 < sz mod 4096) = (0 < unat sz mod 4096)"
    by (simp add: word_less_nat_alt r)
  have q: "unat sz div 4096 < 2 ^ 20" using assms by simp
  have c: "(unat sz + 4095) div 4096 = unat sz div 4096 + (if 0 < unat sz mod 4096 then 1 else 0)"
    by (rule ceil_div_4096)
  have le: "(unat sz + 4095) div 4096 \<le> 2 ^ 20 - 1"
    using assms by simp
  have p: "unat ((sz div 4096) + (if (sz mod 4096) > 0 then 1 else 0)) = (unat sz + 4095) div 4096"
    using q le unfolding c pos by (auto simp: unat_word_ariths d)
  define X where "X = (sz div 4096) + (if (sz mod 4096) > 0 then 1 else 0)"
  have pX: "unat X = (unat sz + 4095) div 4096" using p by (simp add: X_def)
  have "unat (X * 4096) = (unat X * 4096) mod 2 ^ 32" by (simp add: unat_word_ariths)
  also have "\<dots> = unat X * 4096" using le pX by simp
  finally show ?thesis unfolding PAGE_SIZE_def X_def [symmetric] pX .
qed


lemma allocate_None_iff: "allocate sz p = None \<longleftrightarrow> available_memory p < sz"
  by (simp add: allocate_def Let_def)

lemma allocate_Some:
  assumes "allocate sz p = Some (a, p')"
  shows "sz \<le> available_memory p"
    and "a = base_address (ptr_vm_region p (num_regions p - 1))
             + length_region (ptr_vm_region p (num_regions p - 1))"
    and "p' = p\<lparr>ptr_vm_region := (ptr_vm_region p)(num_regions p :=
               \<lparr>base_address = a,
                length_region = ((sz div PAGE_SIZE) + (if (sz mod PAGE_SIZE) > 0 then 1 else 0)) * PAGE_SIZE\<rparr>),
             available_memory := available_memory p
                - ((sz div PAGE_SIZE) + (if (sz mod PAGE_SIZE) > 0 then 1 else 0)) * PAGE_SIZE,
             num_regions := num_regions p + 1\<rparr>"
  using assms by (auto simp: allocate_def Let_def split: if_splits)

lemma dvd_4096_bound:
  assumes "4096 dvd unat (w :: 32 word)"
  shows "unat w \<le> 2 ^ 32 - 4096"
proof -
  from assms obtain k where k: "unat w = 4096 * k" by (auto simp: dvd_def)
  have "unat w < 2 ^ 32" using unsigned_less [of w, where 'a = nat] by simp
  then have "k < 2 ^ 20" using k by simp
  then have "4096 * k \<le> 4096 * (2 ^ 20 - 1)" by simp
  then show ?thesis using k by simp
qed

lemma round_up_le_iff:
  assumes "4096 dvd (a::nat)"
  shows "((n + 4095) div 4096) * 4096 \<le> a \<longleftrightarrow> n \<le> a"
proof -
  from assms obtain k where k: "a = 4096 * k" by (auto simp: dvd_def)
  have "((n + 4095) div 4096) * 4096 \<le> 4096 * k \<longleftrightarrow> (n + 4095) div 4096 \<le> k" by simp
  also have "\<dots> \<longleftrightarrow> (n + 4095) div 4096 < k + 1" by auto
  also have "\<dots> \<longleftrightarrow> n + 4095 < (k + 1) * 4096"
    by (rule div_less_iff_less_mult) simp
  also have "\<dots> \<longleftrightarrow> n \<le> 4096 * k" by auto
  finally show ?thesis unfolding k .
qed


lemma allocate_page_multiple:
  assumes d: "4096 dvd unat (available_memory p)"
  shows "allocate sz p = None \<longleftrightarrow>
           unat (available_memory p) < ((unat sz + 4095) div 4096) * 4096"
proof -
  have "allocate sz p = None \<longleftrightarrow> \<not> unat sz \<le> unat (available_memory p)"
    by (simp add: allocate_None_iff word_less_nat_alt not_le)
  also have "\<dots> \<longleftrightarrow> \<not> ((unat sz + 4095) div 4096) * 4096 \<le> unat (available_memory p)"
    using round_up_le_iff [OF d, of "unat sz"] by simp
  finally show ?thesis by (simp add: not_le)
qed

lemma allocate_page_multiple_Some:
  assumes d: "4096 dvd unat (available_memory p)"
    and a: "allocate sz p = Some (a, p')"
  shows "unat (length_region (ptr_vm_region p' (num_regions p))) = ((unat sz + 4095) div 4096) * 4096"
    and "unat (available_memory p') = unat (available_memory p) - ((unat sz + 4095) div 4096) * 4096"
    and "4096 dvd unat (available_memory p')"
proof -
  let ?r = "((sz div PAGE_SIZE) + (if (sz mod PAGE_SIZE) > 0 then 1 else 0)) * PAGE_SIZE"
  have le: "unat sz \<le> unat (available_memory p)"
    using allocate_Some(1) [OF a] by (simp add: word_le_nat_alt)
  then have b: "unat sz \<le> 2 ^ 32 - 4096" using dvd_4096_bound [OF d] by simp
  have r: "unat ?r = ((unat sz + 4095) div 4096) * 4096" by (rule pages_count_unat [OF b])
  have rle: "unat ?r \<le> unat (available_memory p)"
    unfolding r using round_up_le_iff [OF d, of "unat sz"] le by simp
  then have rle': "?r \<le> available_memory p" by (simp add: word_le_nat_alt)
  have p': "length_region (ptr_vm_region p' (num_regions p)) = ?r"
    "available_memory p' = available_memory p - ?r"
    by (subst allocate_Some(3) [OF a], simp)+
  show "unat (length_region (ptr_vm_region p' (num_regions p))) = ((unat sz + 4095) div 4096) * 4096"
    unfolding p' r ..
  show av: "unat (available_memory p') = unat (available_memory p) - ((unat sz + 4095) div 4096) * 4096"
    unfolding p' using rle' r by (simp add: unat_sub)
  show "4096 dvd unat (available_memory p')"
    unfolding av using d by (simp add: dvd_diff_nat)
qed


lemma allocate_pages_fresh:
  assumes S: "0x7000 \<le> unat S"
  shows "\<exists>p1 p2 p3.
           allocate 0x1000 (VMPool_init B S m) = Some (B + 0x1000, p1) \<and>
           allocate 0x2000 p1 = Some (B + 0x2000, p2) \<and>
           allocate 0x3000 p2 = Some (B + 0x4000, p3) \<and>
           available_memory p1 = available_memory (VMPool_init B S m) - 0x1000 \<and>
           available_memory p2 = available_memory p1 - 0x2000 \<and>
           available_memory p3 = available_memory p2 - 0x3000"
proof -
  have u1: "unat (S - 0x1000) = unat S - 0x1000"
    using S by (simp add: unat_sub word_le_nat_alt)
  have u2: "unat (S - 0x2000) = unat S - 0x2000"
    using S by (simp add: unat_sub word_le_nat_alt)
  have u4: "unat (S - 0x4000) = unat S - 0x4000"
    using S by (simp add: unat_sub word_le_nat_alt)
  have c1: "\<not> (S - 0x1000 < 0x1000)" using S by (simp add: word_less_nat_alt u1)
  have c2: "\<not> (S - 0x2000 < 0x2000)" using S by (simp add: word_less_nat_alt u2)
  have c3: "\<not> (S - 0x4000 < 0x3000)" using S by (simp add: word_less_nat_alt u4)
  show ?thesis
    using c1 c2 c3
    by (simp add: allocate_def VMPool_init_def PAGE_SIZE_def Let_def)
qed

text \<open>
  Claim C6, as the code has it. For a pool whose available memory is a multiple of
  4 KiB (every pool built with a size that is one): \<open>allocate(n_bytes)\<close> fails
  exactly when the available memory is below \<open>n_bytes\<close> rounded up to whole pages;
  when it succeeds, the address returned is the end of the previous region, the new
  record is appended with that base and the rounded length, and the available memory
  goes down by the rounded length (and stays a multiple of 4 KiB). Three allocations
  of 1, 2 and 3 pages from a fresh pool of at least 7 pages at base \<open>B\<close> return
  \<open>B + 0x1000\<close>, \<open>B + 0x2000\<close> and \<open>B + 0x4000\<close>, and the available memory
  goes down by \<open>0x1000\<close>, \<open>0x2000\<close> and \<open>0x3000\<close>.
\<close>

theorem allocate_rounds_and_places:
  "(4096 dvd unat (available_memory p) \<longrightarrow>
      (allocate sz p = None \<longleftrightarrow>
         unat (available_memory p) < ((unat sz + 4095) div 4096) * 4096) \<and>
      (\<forall>a p'. allocate sz p = Some (a, p') \<longrightarrow>
         a = base_address (ptr_vm_region p (num_regions p - 1))
               + length_region (ptr_vm_region p (num_regions p - 1)) \<and>
         base_address (ptr_vm_region p' (num_regions p)) = a \<and>
         unat (length_region (ptr_vm_region p' (num_regions p)))
           = ((unat sz + 4095) div 4096) * 4096 \<and>
         num_regions p' = num_regions p + 1 \<and>
         unat (available_memory p')
           = unat (available_memory p) - ((unat sz + 4095) div 4096) * 4096 \<and>
         4096 dvd unat (available_memory p'))) \<and>
   (0x7000 \<le> unat S \<longrightarrow>
      (\<exists>p1 p2 p3.
         allocate 0x1000 (VMPool_init B S m) = Some (B + 0x1000, p1) \<and>
         allocate 0x2000 p1 = Some (B + 0x2000, p2) \<and>
         allocate 0x3000 p2 = Some (B + 0x4000, p3) \<and>
         available_memory p1 = available_memory (VMPool_init B S m) - 0x1000 \<and>
         available_memory p2 = available_memory p1 - 0x2000 \<and>
         available_memory p3 = available_memory p2 - 0x3000))"
proof (intro conjI impI allI)
  assume d: "4096 dvd unat (available_memory p)"
  show "allocate sz p = None \<longleftrightarrow>
          unat (available_memory p) < ((unat sz + 4095) div 4096) * 4096"
    by (rule allocate_page_multiple [OF d])
  fix a p'
  assume a: "allocate sz p = Some (a, p')"
  show "a = base_address (ptr_vm_region p (num_regions p - 1))
               + length_region (ptr_vm_region p (num_regions p - 1))"
    by (rule allocate_Some(2) [OF a])
  show "base_address (ptr_vm_region p' (num_regions p)) = a"
    by (subst allocate_Some(3) [OF a]) simp
  show "unat (length_region (ptr_vm_region p' (num_regions p)))
           = ((unat sz + 4095) div 4096) * 4096"
    by (rule allocate_page_multiple_Some(1) [OF d a])
  show "num_regions p' = num_regions p + 1"
    by (subst allocate_Some(3) [OF a]) simp
  show "unat (available_memory p')
           = unat (available_memory p) - ((unat sz + 4095) div 4096) * 4096"
    by (rule allocate_page_multiple_Some(2) [OF d a])
  show "4096 dvd unat (available_memory p')"
    by (rule allocate_page_multiple_Some(3) [OF d a])
next
  assume "0x7000 \<le> unat S"
  then show "\<exists>p1 p2 p3.
         allocate 0x1000 (VMPool_init B S m) = Some (B + 0x1000, p1) \<and>
         allocate 0x2000 p1 = Some (B + 0x2000, p2) \<and>
         allocate 0x3000 p2 = Some (B + 0x4000, p3) \<and>
         available_memory p1 = available_memory (VMPool_init B S m) - 0x1000 \<and>
         available_memory p2 = available_memory p1 - 0x2000 \<and>
         available_memory p3 = available_memory p2 - 0x3000"
    by (rule allocate_pages_fresh)
qed

text \<open>
  The theorem at a fresh pool of 16 MiB: a request of 4097 bytes succeeds, a request of
  \<open>0xFFF001\<close> bytes (one byte more than the available \<open>0xFFF000\<close>) fails, and
  the first allocation of one page returns \<open>B + 0x1000\<close>.
\<close>

theorem allocate_rounds_and_places_witness:
  "4096 dvd unat (available_memory (VMPool_init 0x1000000 0x1000000 zero_regions)) \<and>
   allocate 0x1001 (VMPool_init 0x1000000 0x1000000 zero_regions) \<noteq> None \<and>
   allocate 0xFFF001 (VMPool_init 0x1000000 0x1000000 zero_regions) = None \<and>
   (0x7000 :: nat) \<le> unat (0x1000000 :: 32 word) \<and>
   fst (the (allocate 0x1000 (VMPool_init 0x1000000 0x1000000 zero_regions))) = 0x1001000"
  using allocate_rounds_and_places [of "VMPool_init 0x1000000 0x1000000 zero_regions" "0x1001" "0x1000000" "0x1000000" zero_regions]
    allocate_rounds_and_places [of "VMPool_init 0x1000000 0x1000000 zero_regions" "0xFFF001" "0x1000000" "0x1000000" zero_regions]
  by (auto simp: VMPool_init_def PAGE_SIZE_def)

text \<open>
  The claim as stated, for every pool, fails: the guard of the code compares the
  request before it is rounded. A pool of \<open>0x1800\<close> bytes has \<open>0x800\<close> bytes
  available; a request of 1 byte rounds to \<open>0x1000\<close>, more than is available, and
  is granted; the available memory wraps to \<open>0xFFFFF800\<close>.
\<close>

theorem allocate_unrounded_guard_counterexample:
  "unat (available_memory (VMPool_init 0x1000000 0x1800 zero_regions))
     < ((unat (1 :: 32 word) + 4095) div 4096) * 4096 \<and>
   allocate 1 (VMPool_init 0x1000000 0x1800 zero_regions) \<noteq> None \<and>
   available_memory (snd (the (allocate 1 (VMPool_init 0x1000000 0x1800 zero_regions)))) = 0xFFFFF800"
  by (simp add: allocate_def VMPool_init_def PAGE_SIZE_def Let_def)

section \<open>C5: the accounting of VMPool::release\<close>

text \<open>
  Claim C5 fails in the code. \<open>release\<close> adds \<open>ptr_vm_region[region_no].length\<close>
  to the available memory after it has shifted the later records one slot down, so for
  a region that is not the last one it adds the length of the next region. In a pool
  of 16 MiB with a region of one page and then a region of two pages, the release of
  the first gives back \<open>0x2000\<close>: the pool then records \<open>0x3000\<close> bytes of
  regions and \<open>0xFFE000\<close> bytes available, \<open>0x1000\<close> more than its size.
\<close>

theorem release_adds_next_length:
  "(case allocate 0x1000 (VMPool_init 0x1000000 0x1000000 zero_regions) of
      None \<Rightarrow> None
    | Some (a1, p1) \<Rightarrow>
        (case allocate 0x2000 p1 of
           None \<Rightarrow> None
         | Some (a2, p2) \<Rightarrow>
             (case release a1 p2 of
                None \<Rightarrow> None
              | Some (p3, freed) \<Rightarrow>
                  Some (a1, a2, freed, num_regions p3,
                        map (ptr_vm_region p3) [0..<num_regions p3],
                        available_memory p3, pool_size p3,
                        unat (available_memory p3) + regions_total p3))))
   = Some (0x1001000, 0x1002000, [0x1001000], 2,
           [\<lparr>base_address = 0x1000000, length_region = 0x1000\<rparr>,
            \<lparr>base_address = 0x1002000, length_region = 0x2000\<rparr>],
           0xFFE000, 0x1000000, 0x1001000)"
  by (simp add: allocate_def VMPool_init_def PAGE_SIZE_def Let_def release_def shift_regions_def
      find_region.simps regions_total_def zero_regions_def unat_div)

section \<open>C2: release_frames after get_frames\<close>

lemma upt8: "[0..<8] = [0,1,2,3,4,5,6,7]" by (simp add: upt_rec)

text \<open>
  Claim C2 fails in the pool of MP5, in two ways. The lists are the states of the 8
  frames of the pool before \<open>get_frames(1)\<close>, after it, and after
  \<open>release_frames\<close> of the frame it returned.

  First, a fresh pool whose first frame is frame 8: \<open>release_frames_in_pool\<close> reads
  the state at the index relative to the pool but writes \<open>Free\<close> at the absolute
  frame number, so the frame allocated stays a head of sequence while
  \<open>num_free_frames\<close> counts it free.

  Second, a pool that starts at frame 0, with frame 1 marked inaccessible (a head of
  sequence): the loop of the release runs while the next frame is not \<open>Free\<close>, so it
  does not stop at the head of sequence in frame 1 and frees it as well.
\<close>

theorem release_frames_not_inverse:
  "(case ContFramePool_init 8 8 100 (\<lambda>_. 0) of
      None \<Rightarrow> None
    | Some p \<Rightarrow>
        (case get_frames 1 p of
           None \<Rightarrow> None
         | Some (f, p1) \<Rightarrow>
             (case release_frames f [p1] of
                None \<Rightarrow> None
              | Some ps \<Rightarrow>
                  Some (f, map (get_state p) [0..<8], map (get_state p1) [0..<8],
                        map (\<lambda>q. map (get_state q) [0..<8]) ps, map num_free_frames ps))))
     = Some (8, [Free, Free, Free, Free, Free, Free, Free, Free],
                [HoS, Free, Free, Free, Free, Free, Free, Free],
                [[HoS, Free, Free, Free, Free, Free, Free, Free]], [8]) \<and>
   (case ContFramePool_init 0 8 100 (\<lambda>_. 0) of
      None \<Rightarrow> None
    | Some p0 \<Rightarrow>
        (case mark_inaccessible 1 1 p0 of
           None \<Rightarrow> None
         | Some p \<Rightarrow>
            (case get_frames 1 p of
               None \<Rightarrow> None
             | Some (f, p1) \<Rightarrow>
                 (case release_frames f [p1] of
                    None \<Rightarrow> None
                  | Some ps \<Rightarrow>
                      Some (f, map (get_state p) [0..<8], map (get_state p1) [0..<8],
                            map (\<lambda>q. map (get_state q) [0..<8]) ps, map num_free_frames ps)))))
     = Some (0, [Free, HoS, Free, Free, Free, Free, Free, Free],
                [HoS, HoS, Free, Free, Free, Free, Free, Free],
                [[Free, Free, Free, Free, Free, Free, Free, Free]], [8])"
  by (simp add: ContFramePool_init_def mark_inaccessible_def get_frames_def get_state_def
      mark_run_def set_state_def release_frames_in_pool_def release_loop.simps find_run.simps
      uadd32_def usub32_def Let_def upt8)

section \<open>C3: a fault with no page table\<close>

subsection \<open>Aligned addresses\<close>

lemma mask12: "(0xFFF :: 32 word) = mask 12" by (simp add: mask_eq_exp_minus_1)
lemma mask10: "(0x3FF :: 32 word) = mask 10" by (simp add: mask_eq_exp_minus_1)










subsection \<open>The loop over the entries of a page table\<close>

lemma fold_fill_apply:
  "fold (\<lambda>entry m'. m'(base + 4 * of_nat entry := v)) es m a =
     (if a \<in> (\<lambda>e. base + 4 * of_nat e) ` set es then v else m a)"
  by (induction es arbitrary: m) auto

lemma fill_page_table_apply:
  "fill_page_table m base v a =
     (if a \<in> (\<lambda>e. base + 4 * of_nat e) ` {0..<1024} then v else m a)"
  unfolding fill_page_table_def fold_fill_apply set_upt by (rule refl)

lemma entry_offset_bound:
  assumes "e < (1024 :: nat)"
  shows "(4 * of_nat e :: 32 word) < 0x1000"
proof -
  have "unat (of_nat e :: 32 word) = e" using assms by (simp add: unat_of_nat)
  then have "unat (4 * of_nat e :: 32 word) = 4 * e" using assms by (simp add: unat_word_ariths)
  then show ?thesis using assms by (simp add: word_less_nat_alt)
qed







subsection \<open>The handler of MP3\<close>




lemma install_page_table_MP3_present:
  assumes "mem s ((cr3 s AND NOT 0xFFF) + 4 * (drop_bit 22 (cr2 s) AND 0x3FF)) AND 1 \<noteq> 0"
  shows "install_page_table_MP3 fl s = Some s"
  using assms by (simp add: install_page_table_MP3_def Let_def)


lemma install_page_MP3_present:
  assumes "mem s ((mem s ((cr3 s AND NOT 0xFFF) + 4 * (drop_bit 22 (cr2 s) AND 0x3FF)) AND NOT 0xFFF)
                   + 4 * (drop_bit 12 (cr2 s) AND 0x3FF)) AND 1 \<noteq> 0"
  shows "install_page_MP3 fl s = Some s"
  using assms by (simp add: install_page_MP3_def Let_def)




subsection \<open>The handler of MP4\<close>

text \<open>The handler, one operation at a time.\<close>

lemma run_MP4_Load:
  "run_MP4 (Load p) s =
     (case translate s p of
        Some pa \<Rightarrow> Some (mem s pa, s)
      | None \<Rightarrow> Option.bind (run_MP4 (HandleFault 0) (s\<lparr>cr2 := p\<rparr>))
                  (\<lambda>r. run_MP4 (Load p) (snd r)))"
  by (subst run_MP4.simps) simp

lemma run_MP4_Store:
  "run_MP4 (Store p v) s =
     (case translate s p of
        Some pa \<Rightarrow> Some (0, s\<lparr>mem := (mem s)(pa := v)\<rparr>)
      | None \<Rightarrow> Option.bind (run_MP4 (HandleFault 2) (s\<lparr>cr2 := p\<rparr>))
                  (\<lambda>r. run_MP4 (Store p v) (snd r)))"
  by (subst run_MP4.simps) simp









lemma translate_other_fields [simp]:
  "translate (s\<lparr>process_mem_pool := pp\<rparr>) va = translate s va"
  "translate (s\<lparr>cr2 := p\<rparr>) va = translate s va"
  by (simp_all add: translate_def Let_def)

lemma offset_and: "x < 0x1000 \<Longrightarrow> x AND 0xFFF = x" for x :: "32 word"
  unfolding mask12 by (rule less_mask_eq) simp

lemma aligned_offset_disjoint:
  fixes a x :: "32 word"
  assumes "a AND 0xFFF = 0" and "x < 0x1000"
  shows "a AND x = 0"
proof -
  have "a AND x = a AND (0xFFF AND x)" using offset_and [OF assms(2)] by (simp add: and.commute)
  also have "\<dots> = (a AND 0xFFF) AND x" by (simp only: and.assoc)
  finally show ?thesis using assms(1) by simp
qed

lemma aligned_add_or:
  fixes a x :: "32 word"
  assumes "a AND 0xFFF = 0" and "x < 0x1000"
  shows "a + x = a OR x"
  by (rule disjunctive_add_eq_or [OF aligned_offset_disjoint [OF assms]])





lemma and_not_offset_page:
  fixes a x :: "32 word"
  assumes "a AND 0xFFF = 0" and "x < 0x1000"
  shows "(a + x) AND NOT 0xFFF = a"
proof -
  have "x AND NOT 0xFFF = (x AND 0xFFF) AND NOT 0xFFF" by (simp only: offset_and [OF assms(2)])
  then have x0: "x AND NOT 0xFFF = 0" by (simp add: and.assoc)
  have "a = (a AND 0xFFF) OR (a AND NOT 0xFFF)" by (simp flip: bit.conj_disj_distrib)
  then have a0: "a AND NOT 0xFFF = a" using assms(1) by simp
  have "(a OR x) AND NOT 0xFFF = (a AND NOT 0xFFF) OR (x AND NOT 0xFFF)"
    by (rule bit.conj_disj_distrib2)
  also have "\<dots> = a" by (simp only: a0 x0 or.right_neutral)
  finally show ?thesis by (simp only: aligned_add_or [OF assms])
qed


lemma translate_mem_cong:
  assumes "cr3 s' = cr3 s"
    and "mem s' ((cr3 s AND NOT 0xFFF) + 4 * drop_bit 22 va)
           = mem s ((cr3 s AND NOT 0xFFF) + 4 * drop_bit 22 va)"
    and "mem s' ((mem s ((cr3 s AND NOT 0xFFF) + 4 * drop_bit 22 va) AND NOT 0xFFF)
                   + 4 * (drop_bit 12 va AND 0x3FF))
           = mem s ((mem s ((cr3 s AND NOT 0xFFF) + 4 * drop_bit 22 va) AND NOT 0xFFF)
                   + 4 * (drop_bit 12 va AND 0x3FF))"
  shows "translate s' va = translate s va"
  using assms by (simp add: translate_def Let_def)

lemma run_MP4_Store_mapped:
  "translate s p = Some pa \<Longrightarrow> run_MP4 (Store p v) s = Some (0, s\<lparr>mem := (mem s)(pa := v)\<rparr>)"
  by (simp add: run_MP4_Store)

lemma run_MP4_Load_mapped:
  "translate s p = Some pa \<Longrightarrow> run_MP4 (Load p) s = Some (mem s pa, s)"
  by (simp add: run_MP4_Load)








text \<open>
  The walk over the VM pools never makes the handler fail: when the loop ends without
  a legitimate pool, \<open>tmp\<close> is null, and the test \<open>tmp != nullptr && present_flag == 0\<close>
  is false.
\<close>

lemma find_legitimate_no_abort:
  "find_legitimate l a = (tmp, flag) \<Longrightarrow> tmp = [] \<or> flag = 1"
  by (induction l) (auto split: if_splits)


lemma run_MP4_HandleFault_present:
  assumes e: "error_code AND 1 = 0"
    and l: "run_MP4 (Load (cr3 s + 4 * drop_bit 22 (cr2 s))) s = Some (pde, s0)"
    and a: "pde AND 1 \<noteq> 0"
    and g: "get_frames 1 (process_mem_pool s0) = Some (f, pp)"
  shows "run_MP4 (HandleFault error_code) s =
           run_MP4 (Store ((push_bit 22 0x3FF OR push_bit 12 (drop_bit 22 (cr2 s)))
                             + 4 * drop_bit 12 (cr2 s AND push_bit 12 0x03FF))
                          (of_nat f * PAGE_SIZE OR 3))
             (s0\<lparr>process_mem_pool := pp\<rparr>)"
proof -
  obtain tmp flag where fl: "find_legitimate (vm_pool_head s) (cr2 s) = (tmp, flag)"
    by (cases "find_legitimate (vm_pool_head s) (cr2 s)") auto
  from find_legitimate_no_abort [OF fl] have na: "\<not> (tmp \<noteq> [] \<and> flag = 0)" by auto
  show ?thesis
    by (subst run_MP4.simps) (use e l a g na in \<open>auto simp: Let_def fl\<close>)
qed

lemma fill_page_table_outside:
  fixes base a :: "32 word"
  assumes "base AND 0xFFF = 0" and "a AND NOT 0xFFF \<noteq> base"
  shows "fill_page_table m base v a = m a"
proof -
  have "a \<notin> (\<lambda>e. base + 4 * of_nat e) ` {0..<1024}"
  proof
    assume "a \<in> (\<lambda>e. base + 4 * of_nat e) ` {0..<1024}"
    then obtain e where e: "e < 1024" and eq: "a = base + 4 * of_nat e" by auto
    have "a AND NOT 0xFFF = base"
      unfolding eq by (rule and_not_offset_page [OF assms(1) entry_offset_bound [OF e]])
    with assms(2) show False by simp
  qed
  then show ?thesis by (simp add: fill_page_table_apply)
qed


text \<open>
  In MP3 a fault at an address whose page directory entry and page table entry are
  both present changes nothing: no frame is taken from either pool.
\<close>

lemma handle_fault_MP3_mapped:
  assumes "error_code AND 1 = 0"
    and "mem s ((cr3 s AND NOT 0xFFF) + 4 * (drop_bit 22 (cr2 s) AND 0x3FF)) AND 1 \<noteq> 0"
    and "mem s ((mem s ((cr3 s AND NOT 0xFFF) + 4 * (drop_bit 22 (cr2 s) AND 0x3FF)) AND NOT 0xFFF)
                   + 4 * (drop_bit 12 (cr2 s) AND 0x3FF)) AND 1 \<noteq> 0"
  shows "handle_fault_MP3 error_code s = Some s"
  using assms
  by (simp add: handle_fault_MP3_def install_page_table_MP3_present install_page_MP3_present)

subsection \<open>The example pools\<close>


lemma ex_p1: "get_frames 1 example_process_pool =
   Some (1024, example_process_pool\<lparr>num_free_frames := 7, bitmap := (\<lambda>_. 0)(0 := 0x03)\<rparr>)"
  by (simp add: get_frames_def uadd32_def example_process_pool_def find_run.simps get_state_def mark_run_def
      set_state_def Let_def)






subsection \<open>The constructor of MP4\<close>

text \<open>
  From zero memory, with the page directory in frame 514 and the first page table in
  frame 1024, the constructor leaves \<open>example_boot_mem\<close> at every aligned address,
  and the pools of the example states.
\<close>

lemma fold_entries_apply:
  assumes "\<forall>i \<in> set xs. \<forall>j \<in> set xs. base + 4 * of_nat i = base + 4 * of_nat j \<longrightarrow> i = j"
    and "distinct xs"
  shows "fold (\<lambda>index m. m(base + 4 * of_nat index := g index (m (base + 4 * of_nat index)))) xs m a =
     (case List.find (\<lambda>i. base + 4 * of_nat i = a) xs of
        None \<Rightarrow> m a
      | Some i \<Rightarrow> g i (m a))"
  using assms
proof (induction xs arbitrary: m)
  case Nil
  then show ?case by simp
next
  case (Cons x xs)
  have p: "\<forall>i \<in> set xs. \<forall>j \<in> set xs. base + 4 * of_nat i = base + 4 * of_nat j \<longrightarrow> i = j"
    using Cons.prems(1) by simp
  have d: "distinct xs" using Cons.prems(2) by simp
  let ?f = "\<lambda>index m. m(base + 4 * of_nat index := g index (m (base + 4 * of_nat index)))"
  have ih: "fold ?f xs (?f x m) a =
     (case List.find (\<lambda>i. base + 4 * of_nat i = a) xs of
        None \<Rightarrow> (?f x m) a
      | Some i \<Rightarrow> g i ((?f x m) a))"
    by (rule Cons.IH [OF p d])
  have st: "fold ?f (x # xs) m a = fold ?f xs (?f x m) a" by simp
  show ?case
  proof (cases "base + 4 * of_nat x = a")
    case True
    have n: "List.find (\<lambda>i. base + 4 * of_nat i = a) xs = None"
      using Cons.prems True by (auto simp: find_None_iff)
    have v: "(?f x m) a = g x (m a)" using True by simp
    have "List.find (\<lambda>i. base + 4 * of_nat i = a) (x # xs) = Some x" using True by simp
    then show ?thesis unfolding st ih n v by simp
  next
    case False
    have v: "(?f x m) a = m a" using False by auto
    have "List.find (\<lambda>i. base + 4 * of_nat i = a) (x # xs)
            = List.find (\<lambda>i. base + 4 * of_nat i = a) xs" using False by simp
    then show ?thesis unfolding st ih v by simp
  qed
qed

lemma entry_addr_inj:
  fixes base :: "32 word"
  assumes "i < 1024" and "j < 1024" and "base + 4 * of_nat i = base + 4 * of_nat j"
  shows "i = j"
proof -
  have "(4 * of_nat i :: 32 word) = 4 * of_nat j" using assms(3) by simp
  then have "unat (4 * of_nat i :: 32 word) = unat (4 * of_nat j :: 32 word)" by simp
  moreover have "unat (4 * of_nat i :: 32 word) = 4 * i"
    using assms(1) by (simp add: unat_word_ariths unat_of_nat)
  moreover have "unat (4 * of_nat j :: 32 word) = 4 * j"
    using assms(2) by (simp add: unat_word_ariths unat_of_nat)
  ultimately show ?thesis by simp
qed

lemma aligned_entry:
  fixes a base :: "32 word"
  assumes b: "base AND 0xFFF = 0" and p: "a AND NOT 0xFFF = base" and al: "a AND 3 = 0"
  shows "\<exists>i<1024. a = base + 4 * of_nat i \<and> a AND 0xFFF = 4 * of_nat i"
proof -
  define x where "x = a AND 0xFFF"
  have xa: "a = base + x"
  proof -
    have "a = (a AND NOT 0xFFF) OR (a AND 0xFFF)"
      by (simp add: or.commute flip: bit.conj_disj_distrib)
    also have "\<dots> = base OR x" by (simp only: p x_def)
    also have "\<dots> = base + x"
    proof (rule disjunctive_add_eq_or [symmetric])
      have "base AND x = (base AND 0xFFF) AND a" by (simp add: x_def and.assoc and.left_commute and.commute)
      then show "base AND x = 0" using b by simp
    qed
    finally show ?thesis .
  qed
  have xl: "unat x < 4096"
  proof -
    have "unat x \<le> unat (0xFFF :: 32 word)"
      unfolding x_def by (rule word_and_le1 [THEN word_le_nat_alt [THEN iffD1]])
    then show ?thesis by simp
  qed
  have x3: "x AND 3 = 0"
  proof -
    have "x AND 3 = (a AND 3) AND 0xFFF" by (simp add: x_def and.assoc and.commute and.left_commute)
    then show ?thesis using al by simp
  qed
  have "take_bit 2 x = 0" using x3 by (simp add: take_bit_eq_mask mask_eq_exp_minus_1)
  then have "take_bit 2 (unat x) = 0" by (simp add: unsigned_take_bit_eq flip: unat_eq_0)
  then have d4: "4 dvd unat x" by (simp add: take_bit_eq_mod mod_eq_0_iff_dvd)
  define i where "i = unat x div 4"
  have i: "i < 1024" using xl by (simp add: i_def)
  have "unat x = 4 * i" using d4 by (simp add: i_def)
  moreover have "x = of_nat (unat x)" by simp
  ultimately have "x = of_nat (4 * i)" by simp
  then have xi: "x = 4 * of_nat i" by simp
  show ?thesis using i xa xi by (auto simp: x_def)
qed

lemma ex_k0: "get_frames 1 (example_kernel_pool\<lparr>num_free_frames := 6, bitmap := (\<lambda>_. 0)(0 := 0x0D)\<rparr>) =
   Some (514, example_kernel_pool)"
  by (simp add: get_frames_def uadd32_def example_kernel_pool_def find_run.simps get_state_def mark_run_def
      set_state_def Let_def)

lemma find_entry:
  fixes base :: "32 word"
  assumes "lo \<le> i" and "i < hi" and "hi \<le> 1024"
  shows "List.find (\<lambda>j. base + 4 * of_nat j = base + 4 * of_nat i) [lo..<hi] = Some i"
proof -
  have "\<exists>k. k < List.length [lo..<hi] \<and> base + 4 * of_nat ([lo..<hi] ! k) = base + 4 * of_nat i \<and>
          i = [lo..<hi] ! k \<and> (\<forall>j<k. base + 4 * of_nat ([lo..<hi] ! j) \<noteq> base + 4 * of_nat i)"
  proof (intro exI [of _ "i - lo"] conjI allI impI)
    show "i - lo < List.length [lo..<hi]" using assms by simp
    show e: "i = [lo..<hi] ! (i - lo)" using assms by simp
    show "base + 4 * of_nat ([lo..<hi] ! (i - lo)) = base + 4 * of_nat i" using e by simp
    fix j assume j: "j < i - lo"
    then have n: "[lo..<hi] ! j = lo + j" using assms by simp
    show "base + 4 * of_nat ([lo..<hi] ! j) \<noteq> base + 4 * of_nat i"
    proof
      assume "base + 4 * of_nat ([lo..<hi] ! j) = base + 4 * of_nat i"
      then have "lo + j = i"
        using entry_addr_inj [of "lo + j" i base] j assms by (simp add: n)
      then show False using j by simp
    qed
  qed
  then show ?thesis by (simp only: find_Some_iff)
qed

lemma find_no_entry:
  fixes base a :: "32 word"
  assumes "base AND 0xFFF = 0" and "a AND NOT 0xFFF \<noteq> base" and "hi \<le> 1024"
  shows "List.find (\<lambda>j. base + 4 * of_nat j = a) [lo..<hi] = None"
proof -
  have "base + 4 * of_nat j \<noteq> a" if "j < hi" for j
  proof
    assume e: "base + 4 * of_nat j = a"
    have "j < 1024" using that assms(3) by simp
    from and_not_offset_page [OF assms(1) entry_offset_bound [OF this]] e
    have "a AND NOT 0xFFF = base" by simp
    with assms(2) show False by simp
  qed
  then show ?thesis by (auto simp: find_None_iff)
qed


lemma entries_inj_upt:
  fixes base :: "32 word"
  assumes "hi \<le> 1024"
  shows "\<forall>i \<in> set [lo..<hi]. \<forall>j \<in> set [lo..<hi]. base + 4 * of_nat i = base + 4 * of_nat j \<longrightarrow> i = j"
  using assms entry_addr_inj [of _ _ base] by auto

lemma PageTable_MP4_example_run:
  "PageTable_MP4 example_start_state_MP4 =
     Some (0x202000,
       example_start_state_MP4\<lparr>kernel_mem_pool := example_kernel_pool,
         process_mem_pool := example_process_pool\<lparr>num_free_frames := 7, bitmap := (\<lambda>_. 0)(0 := 0x03)\<rparr>,
         mem := fold (\<lambda>index m. m(0x400000 + 4 * of_nat index := of_nat index * PAGE_SIZE OR 3))
                  [0..<1024]
                  (fold (\<lambda>index m. m(0x202000 + 4 * of_nat index := m (0x202000 + 4 * of_nat index) OR 2))
                     [1..<1023]
                     ((\<lambda>_. 0)(0x202FFC := 0x202003, 0x202000 := 0x400003)))\<rparr>)"
proof -
  have k: "get_frames 1 (kernel_mem_pool example_start_state_MP4) = Some (514, example_kernel_pool)"
    using ex_k0 by (simp add: example_start_state_MP4_def)
  have p: "get_frames 1 (process_mem_pool example_start_state_MP4) =
      Some (1024, example_process_pool\<lparr>num_free_frames := 7, bitmap := (\<lambda>_. 0)(0 := 0x03)\<rparr>)"
    using ex_p1 by (simp add: example_start_state_MP4_def)
  have n: "shared_size example_start_state_MP4 div PAGE_SIZE = 1024"
    by (simp add: example_start_state_MP4_def PAGE_SIZE_def)
  have u1: "unat (1024 - 1 :: 32 word) = 1023" by simp
  have u2: "unat (1024 :: 32 word) = 1024" by simp
  have a1: "(of_nat 514 * PAGE_SIZE :: 32 word) = 0x202000" by (simp add: PAGE_SIZE_def)
  have a2: "(of_nat 1024 * PAGE_SIZE :: 32 word) = 0x400000" by (simp add: PAGE_SIZE_def)
  have a3: "(0x202000 :: 32 word) OR 3 = 0x202003" by simp
  have a4: "(0x400000 :: 32 word) OR 3 = 0x400003" by simp
  have a5: "(0x202000 :: 32 word) + 4 * (1024 - 1) = 0x202FFC" by simp
  have a6: "(0x202000 :: 32 word) + 4 * 0 = 0x202000" by simp
  have m: "mem example_start_state_MP4 = (\<lambda>_. 0)" by (simp add: example_start_state_MP4_def)
  show ?thesis
    unfolding PageTable_MP4_def n Let_def k p option.case prod.case u1 u2 a1 a2 a3 a4 a5 a6 m
    by (rule refl)
qed

lemma PageTable_MP4_example_mem:
  fixes a :: "32 word"
  assumes al: "a AND 3 = 0"
  shows "fold (\<lambda>index m. m(0x400000 + 4 * of_nat index := of_nat index * PAGE_SIZE OR 3))
           [0..<1024]
           (fold (\<lambda>index m. m(0x202000 + 4 * of_nat index := m (0x202000 + 4 * of_nat index) OR 2))
              [1..<1023]
              ((\<lambda>_. 0)(0x202FFC := 0x202003, 0x202000 := 0x400003))) a
         = example_boot_mem 0x202000 0x400000 a"
proof -
  let ?m2 = "(\<lambda>_. 0 :: 32 word)(0x202FFC := 0x202003, 0x202000 := (0x400003 :: 32 word))"
  let ?m3 = "fold (\<lambda>index m. m((0x202000 :: 32 word) + 4 * of_nat index :=
                       (\<lambda>_ v. v OR 2) index (m (0x202000 + 4 * of_nat index))))
              [1..<1023] ?m2"
  let ?m4 = "fold (\<lambda>index m. m((0x400000 :: 32 word) + 4 * of_nat index :=
                       (\<lambda>i _. of_nat i * PAGE_SIZE OR 3) index (m (0x400000 + 4 * of_nat index))))
              [0..<1024] ?m3"
  have b1: "(0x202000 :: 32 word) AND 0xFFF = 0" by simp
  have b2: "(0x400000 :: 32 word) AND 0xFFF = 0" by simp
  have e4: "?m4 a = (case List.find (\<lambda>i. 0x400000 + 4 * of_nat i = a) [0..<1024] of
                        None \<Rightarrow> ?m3 a | Some i \<Rightarrow> of_nat i * PAGE_SIZE OR 3)"
  proof -
    have i: "\<forall>i \<in> set [0..<1024]. \<forall>j \<in> set [0..<1024].
        (0x400000 :: 32 word) + 4 * of_nat i = 0x400000 + 4 * of_nat j \<longrightarrow> i = j"
      by (rule entries_inj_upt) (rule order_refl)
    show ?thesis
      by (rule fold_entries_apply [where g = "\<lambda>i _. of_nat i * PAGE_SIZE OR 3" and base = "0x400000"
            and xs = "[0..<1024]", OF i distinct_upt])
  qed
  have e3: "?m3 a = (case List.find (\<lambda>i. 0x202000 + 4 * of_nat i = a) [1..<1023] of
                        None \<Rightarrow> ?m2 a | Some i \<Rightarrow> ?m2 a OR 2)"
  proof -
    have i: "\<forall>i \<in> set [1..<1023]. \<forall>j \<in> set [1..<1023].
        (0x202000 :: 32 word) + 4 * of_nat i = 0x202000 + 4 * of_nat j \<longrightarrow> i = j"
      by (rule entries_inj_upt) simp
    show ?thesis
      by (rule fold_entries_apply [where g = "\<lambda>_ v. v OR 2" and base = "0x202000"
            and xs = "[1..<1023]", OF i distinct_upt])
  qed
  consider (pd) "a AND NOT 0xFFF = 0x202000" | (pt) "a AND NOT 0xFFF = 0x400000"
    | (other) "a AND NOT 0xFFF \<noteq> 0x202000" "a AND NOT 0xFFF \<noteq> 0x400000" by blast
  then have "?m4 a = example_boot_mem 0x202000 0x400000 a"
  proof cases
    case pd
    then have npt: "a AND NOT 0xFFF \<noteq> 0x400000" by simp
    have f4: "List.find (\<lambda>i. 0x400000 + 4 * of_nat i = a) [0..<1024] = None"
      by (rule find_no_entry [OF b2 npt]) simp
    from aligned_entry [OF b1 pd al] obtain i where i: "i < 1024" and ai: "a = 0x202000 + 4 * of_nat i"
      by blast
    have z: "(0x202000 :: 32 word) = 0x202000 + 4 * of_nat 0" by simp
    have l: "(0x202FFC :: 32 word) = 0x202000 + 4 * of_nat 1023" by simp
    have az: "a = 0x202000 \<longleftrightarrow> i = 0"
      using entry_addr_inj [of i 0 "0x202000"] i ai by auto
    have al1: "a = 0x202FFC \<longleftrightarrow> i = 1023"
      using entry_addr_inj [of i 1023 "0x202000"] i ai by auto
    have al2: "a = 0x202000 + 4 * 1023 \<longleftrightarrow> i = 1023" using al1 by simp
    show ?thesis
    proof (cases "1 \<le> i \<and> i < 1023")
      case True
      then have f3: "List.find (\<lambda>j. 0x202000 + 4 * of_nat j = a) [1..<1023] = Some i"
        unfolding ai by (intro find_entry) simp_all
      have "?m2 a = 0" using True az al1 by simp
      then have v: "?m4 a = 2" by (simp only: e4 f4 e3 f3 option.case) simp
      have w: "example_boot_mem 0x202000 0x400000 a = 2"
        using True az al2 pd by (simp add: example_boot_mem_def)
      show ?thesis by (simp only: v w)
    next
      case False
      then have c: "i = 0 \<or> i = 1023" using i by arith
      have f3: "List.find (\<lambda>j. 0x202000 + 4 * of_nat j = a) [1..<1023] = None"
      proof -
        have "0x202000 + 4 * of_nat j \<noteq> a" if "j \<in> set [1..<1023]" for j
        proof
          assume e: "0x202000 + 4 * of_nat j = a"
          from that have jb: "1 \<le> j \<and> j < 1023" by (simp only: set_upt atLeastLessThan_iff)
          then have "j < 1024" by simp
          from entry_addr_inj [OF this i] e ai have "j = i" by simp
          with jb False show False by simp
        qed
        then show ?thesis by (simp only: find_None_iff) blast
      qed
      have m4: "?m4 a = ?m2 a" by (simp only: e4 f4 e3 f3 option.case)
      from c show ?thesis
      proof
        assume "i = 0"
        then have ae: "a = 0x202000" using az by simp
        have v: "?m2 a = 0x400003" using ae by simp
        have w: "example_boot_mem 0x202000 0x400000 a = 0x400003"
          using ae by (simp add: example_boot_mem_def)
        show ?thesis by (simp only: m4 v w)
      next
        assume "i = 1023"
        then have ae: "a = 0x202FFC" using al1 by simp
        have v: "?m2 a = 0x202003" using ae by simp
        have w: "example_boot_mem 0x202000 0x400000 a = 0x202003"
          using ae by (simp add: example_boot_mem_def)
        show ?thesis by (simp only: m4 v w)
      qed
    qed
  next
    case pt
    from aligned_entry [OF b2 pt al] obtain i where i: "i < 1024" and ai: "a = 0x400000 + 4 * of_nat i"
      and off: "a AND 0xFFF = 4 * of_nat i" by blast
    have f4: "List.find (\<lambda>j. 0x400000 + 4 * of_nat j = a) [0..<1024] = Some i"
      unfolding ai using i by (intro find_entry) simp_all
    have v: "?m4 a = of_nat i * PAGE_SIZE OR 3" by (simp only: e4 f4 option.case)
    have w0: "example_boot_mem 0x202000 0x400000 a = push_bit 10 (4 * of_nat i) OR 3"
      using pt off by (simp add: example_boot_mem_def)
    have "push_bit 10 (4 * of_nat i :: 32 word) = of_nat i * PAGE_SIZE"
      by (simp add: push_bit_eq_mult PAGE_SIZE_def)
    with w0 have w: "example_boot_mem 0x202000 0x400000 a = of_nat i * PAGE_SIZE OR 3" by simp
    show ?thesis by (simp only: v w)
  next
    case other
    have f4: "List.find (\<lambda>i. 0x400000 + 4 * of_nat i = a) [0..<1024] = None"
      by (rule find_no_entry [OF b2 other(2)]) simp
    have f3: "List.find (\<lambda>i. 0x202000 + 4 * of_nat i = a) [1..<1023] = None"
      by (rule find_no_entry [OF b1 other(1)]) simp
    have n1: "a \<noteq> 0x202000" using other(1) by auto
    have n2: "a \<noteq> 0x202FFC" using other(1) by auto
    have m4: "?m4 a = ?m2 a" by (simp only: e4 f4 e3 f3 option.case)
    have v: "?m2 a = 0" using n1 n2 by simp
    have w: "example_boot_mem 0x202000 0x400000 a = 0"
      using other by (simp add: example_boot_mem_def)
    show ?thesis by (simp only: m4 v w)
  qed
  then show ?thesis .
qed

lemma PageTable_updated_fields:
  "kernel_mem_pool (s\<lparr>kernel_mem_pool := K, process_mem_pool := P, mem := M\<rparr>) = K \<and>
   process_mem_pool (s\<lparr>kernel_mem_pool := K, process_mem_pool := P, mem := M\<rparr>) = P \<and>
   mem (s\<lparr>kernel_mem_pool := K, process_mem_pool := P, mem := M\<rparr>) = M"
  by simp

lemma PageTable_MP4_example:
  "\<exists>s. PageTable_MP4 example_start_state_MP4 = Some (0x202000, s) \<and>
        kernel_mem_pool s = example_kernel_pool \<and>
        process_mem_pool s = example_process_pool\<lparr>num_free_frames := 7, bitmap := (\<lambda>_. 0)(0 := 0x03)\<rparr> \<and>
        (\<forall>a. a AND 3 = 0 \<longrightarrow> mem s a = example_boot_mem 0x202000 0x400000 a)"
  unfolding PageTable_MP4_example_run
  by (intro exI conjI allI impI, rule refl)
     (simp_all only: PageTable_updated_fields PageTable_MP4_example_mem)

subsection \<open>The handler of MP4 at its first fault outside the shared region\<close>

lemma example_state_MP4_simps [simp]:
  "mem (example_state_MP4 c p m) = m"
  "cr2 (example_state_MP4 c p m) = c"
  "cr3 (example_state_MP4 c p m) = 0x202000"
  "kernel_mem_pool (example_state_MP4 c p m) = example_kernel_pool"
  "process_mem_pool (example_state_MP4 c p m) = p"
  "vm_pool_head (example_state_MP4 c p m) = []"
  "(example_state_MP4 c p m)\<lparr>cr2 := c'\<rparr> = example_state_MP4 c' p m"
  "(example_state_MP4 c p m)\<lparr>process_mem_pool := p'\<rparr> = example_state_MP4 c p' m"
  "(example_state_MP4 c p m)\<lparr>mem := m'\<rparr> = example_state_MP4 c p m'"
  by (simp_all add: example_state_MP4_def)





subsection \<open>The claim\<close>




section \<open>C4: a second fault at a mapped address\<close>




lemma ex_p7: "get_frames 1 (example_process_pool\<lparr>num_free_frames := 2, bitmap := (\<lambda>_. 0)(0 := 0xFF, 1 := 0x0F)\<rparr>) =
   Some (1030, example_process_pool\<lparr>num_free_frames := 1, bitmap := (\<lambda>_. 0)(0 := 0xFF, 1 := 0x3F)\<rparr>)"
  by (simp add: get_frames_def uadd32_def example_process_pool_def find_run.simps get_state_def mark_run_def
      set_state_def Let_def)

text \<open>
  The same at the state that the first fault of MP4 at \<open>0x40000000\<close> leaves (lemma
  \<open>example_MP4_fault\<close>): a second call of the handler for that address, which is
  mapped to frame 1029 by then, takes frame 1030 and remaps the page.
\<close>

lemma example_MP4_second_fault:
  assumes e: "error_code AND 1 = 0"
  shows "translate (example_state_MP4 0x40000000
            (example_process_pool\<lparr>num_free_frames := 2, bitmap := (\<lambda>_. 0)(0 := 0xFF, 1 := 0x0F)\<rparr>)
            example_final_mem_MP4) 0x40000000 = Some 0x405000 \<and>
         handle_fault_MP4 error_code (example_state_MP4 0x40000000
            (example_process_pool\<lparr>num_free_frames := 2, bitmap := (\<lambda>_. 0)(0 := 0xFF, 1 := 0x0F)\<rparr>)
            example_final_mem_MP4) =
         Some (example_state_MP4 0x40000000
            (example_process_pool\<lparr>num_free_frames := 1, bitmap := (\<lambda>_. 0)(0 := 0xFF, 1 := 0x3F)\<rparr>)
            (example_final_mem_MP4(0x401000 := 0x406003)))"
proof -
  let ?P2 = "example_process_pool\<lparr>num_free_frames := 2, bitmap := (\<lambda>_. 0)(0 := 0xFF, 1 := 0x0F)\<rparr>"
  let ?P1 = "example_process_pool\<lparr>num_free_frames := 1, bitmap := (\<lambda>_. 0)(0 := 0xFF, 1 := 0x3F)\<rparr>"
  let ?s = "example_state_MP4 0x40000000 ?P2 example_final_mem_MP4"
  have m: "example_final_mem_MP4 0x202000 = 0x400003" "example_final_mem_MP4 0x400808 = 0x202003"
    "example_final_mem_MP4 0x202400 = 0x401003" "example_final_mem_MP4 0x202FFC = 0x202003"
    "example_final_mem_MP4 0x401000 = 0x405003"
    by (simp_all add: example_final_mem_MP4_def fill_page_table_outside example_boot_mem_def)
  have t0: "translate ?s 0x40000000 = Some 0x405000"
    by (simp add: translate_def Let_def m)
  have t: "translate ?s 0x202400 = Some 0x202400"
    by (simp add: translate_def Let_def m)
  have l: "run_MP4 (Load (cr3 ?s + 4 * drop_bit 22 (cr2 ?s))) ?s = Some (0x401003, ?s)"
    using run_MP4_Load_mapped [OF t] by (simp add: m)
  have g: "get_frames 1 (process_mem_pool ?s) = Some (1030, ?P1)"
    using ex_p7 by simp
  have t1: "translate (example_state_MP4 0x40000000 ?P1 example_final_mem_MP4) 0xFFD00000
              = Some 0x401000"
    by (simp add: translate_def Let_def m)
  have "run_MP4 (HandleFault error_code) ?s =
          run_MP4 (Store ((push_bit 22 0x3FF OR push_bit 12 (drop_bit 22 (cr2 ?s)))
                             + 4 * drop_bit 12 (cr2 ?s AND push_bit 12 0x03FF))
                          (of_nat 1030 * PAGE_SIZE OR 3))
             (?s\<lparr>process_mem_pool := ?P1\<rparr>)"
    by (rule run_MP4_HandleFault_present [OF e l _ g]) simp
  also have "\<dots> = run_MP4 (Store 0xFFD00000 0x406003)
                      (example_state_MP4 0x40000000 ?P1 example_final_mem_MP4)"
    by (simp add: PAGE_SIZE_def)
  also have "\<dots> = Some (0, (example_state_MP4 0x40000000 ?P1 example_final_mem_MP4)
       \<lparr>mem := (mem (example_state_MP4 0x40000000 ?P1 example_final_mem_MP4))(0x401000 := 0x406003)\<rparr>)"
    by (rule run_MP4_Store_mapped [OF t1])
  finally show ?thesis using t0 by (simp add: handle_fault_MP4_def)
qed

section \<open>C1: writing a file and reading it back\<close>

text \<open>The array of block numbers survives its trip through a block of bytes.\<close>

lemma uint_bytes_length [simp]: "List.length (uint_bytes n) = 4"
  by (simp add: uint_bytes_def)

lemma block_nums_bytes_length: "List.length (block_nums_bytes nums) = 4 * List.length nums"
  by (induction nums) (simp_all add: block_nums_bytes_def)

lemma block_nums_bytes_nth:
  assumes "i < List.length nums" and "k < 4"
  shows "block_nums_bytes nums ! (4 * i + k) = uint_bytes (nums ! i) ! k"
  using assms
proof (induction nums arbitrary: i)
  case Nil
  then show ?case by simp
next
  case (Cons a nums)
  show ?case
  proof (cases i)
    case 0
    then show ?thesis using Cons.prems by (simp add: block_nums_bytes_def nth_append)
  next
    case (Suc j)
    then have "block_nums_bytes (a # nums) ! (4 * i + k) = block_nums_bytes nums ! (4 * j + k)"
      by (simp add: block_nums_bytes_def nth_append)
    then show ?thesis using Cons.IH [of j] Cons.prems Suc by simp
  qed
qed

lemma byte_of_nat: "unat (of_nat (m mod 256) :: 8 word) = m mod 256"
  by (simp add: unat_of_nat)

lemma uint_split:
  assumes "n < 2 ^ 32"
  shows "n mod 256 + 256 * (n div 256 mod 256) + 65536 * (n div 65536 mod 256)
           + 16777216 * (n div 16777216 mod 256) = (n::nat)"
proof -
  have d2: "n div 65536 = n div 256 div 256" by (simp add: div_mult2_eq)
  have d3: "n div 16777216 = n div 256 div 256 div 256" by (simp add: div_mult2_eq)
  have small: "n div 256 div 256 div 256 < 256" using assms by (simp add: div_mult2_eq)
  define a where "a = n div 256"
  define b where "b = a div 256"
  define c where "c = b div 256"
  have 1: "n = 256 * a + n mod 256" by (simp add: a_def)
  have 2: "a = 256 * b + a mod 256" by (simp add: b_def)
  have 3: "b = 256 * c + b mod 256" by (simp add: c_def)
  have 4: "c mod 256 = c" using small by (simp add: a_def b_def c_def)
  have "n mod 256 + 256 * (a mod 256) + 65536 * (b mod 256) + 16777216 * (c mod 256) = n"
    using 1 2 3 4 by linarith
  then show ?thesis unfolding d2 d3 a_def b_def c_def .
qed

lemma uint_bytes_sum:
  assumes "n < 2 ^ 32"
  shows "unat (uint_bytes n ! 0) + 256 * unat (uint_bytes n ! 1)
           + 65536 * unat (uint_bytes n ! 2) + 16777216 * unat (uint_bytes n ! 3) = n"
proof -
  have 0: "unat (uint_bytes n ! 0) = n mod 256"
    by (simp add: uint_bytes_def unat_of_nat)
  have 1: "unat (uint_bytes n ! 1) = n div 256 mod 256"
    by (simp add: uint_bytes_def unat_of_nat)
  have 2: "unat (uint_bytes n ! 2) = n div 65536 mod 256"
    by (simp add: uint_bytes_def unat_of_nat)
  have 3: "unat (uint_bytes n ! 3) = n div 16777216 mod 256"
    by (simp add: uint_bytes_def unat_of_nat)
  show ?thesis unfolding 0 1 2 3 by (rule uint_split [OF assms])
qed

lemma bytes_uint_block_nums_bytes:
  assumes "i < List.length nums" and "nums ! i < 2 ^ 32"
  shows "bytes_uint (block_nums_bytes nums) i = nums ! i"
proof -
  have n: "block_nums_bytes nums ! (4 * i) = uint_bytes (nums ! i) ! 0"
    "block_nums_bytes nums ! (4 * i + 1) = uint_bytes (nums ! i) ! 1"
    "block_nums_bytes nums ! (4 * i + 2) = uint_bytes (nums ! i) ! 2"
    "block_nums_bytes nums ! (4 * i + 3) = uint_bytes (nums ! i) ! 3"
    using block_nums_bytes_nth [OF assms(1), of 0] block_nums_bytes_nth [OF assms(1), of 1]
      block_nums_bytes_nth [OF assms(1), of 2] block_nums_bytes_nth [OF assms(1), of 3]
    by simp_all
  show ?thesis
    unfolding bytes_uint_def n by (rule uint_bytes_sum [OF assms(2)])
qed

lemma bytes_block_nums_inverse:
  assumes "List.length nums = 128" and "\<forall>n \<in> set nums. n < 2 ^ 32"
  shows "bytes_block_nums (block_nums_bytes nums) = nums"
proof (rule nth_equalityI)
  show "List.length (bytes_block_nums (block_nums_bytes nums)) = List.length nums"
    using assms(1) by (simp add: bytes_block_nums_def BLOCK_SIZE_def)
next
  fix i
  assume "i < List.length (bytes_block_nums (block_nums_bytes nums))"
  then have i: "i < 128" by (simp add: bytes_block_nums_def BLOCK_SIZE_def)
  then have "nums ! i < 2 ^ 32" using assms by simp
  then have "bytes_uint (block_nums_bytes nums) i = nums ! i"
    using i assms(1) by (intro bytes_uint_block_nums_bytes) simp_all
  then show "bytes_block_nums (block_nums_bytes nums) ! i = nums ! i"
    using i by (simp add: bytes_block_nums_def BLOCK_SIZE_def)
qed

lemma copy_bytes_Suc:
  "copy_bytes dst doff src soff (Suc n) =
     (copy_bytes dst doff src soff n)[doff + n := src ! (soff + n)]"
  by (simp add: copy_bytes_def)

lemma copy_bytes_length [simp]:
  "List.length (copy_bytes dst doff src soff n) = List.length dst"
  by (induction n) (simp_all add: copy_bytes_Suc, simp add: copy_bytes_def)

lemma copy_bytes_nth:
  assumes "i < List.length dst"
  shows "copy_bytes dst doff src soff n ! i =
           (if doff \<le> i \<and> i < doff + n then src ! (soff + (i - doff)) else dst ! i)"
  using assms
proof (induction n)
  case 0
  then show ?case by (auto simp: copy_bytes_def)
next
  case (Suc n)
  show ?case
  proof (cases "i = doff + n")
    case True
    then show ?thesis using Suc.prems by (simp add: copy_bytes_Suc)
  next
    case False
    then have "copy_bytes dst doff src soff (Suc n) ! i = copy_bytes dst doff src soff n ! i"
      by (simp add: copy_bytes_Suc)
    then show ?thesis using Suc False by auto
  qed
qed

lemma GetFreeBlock_Some:
  assumes "GetFreeBlock fs = Some n"
  shows "2 \<le> n \<and> n < fs_size fs div BLOCK_SIZE \<and> free_blocks fs ! n = 0"
proof -
  from assms obtain i where i: "i < List.length [2..<fs_size fs div BLOCK_SIZE]"
    "free_blocks fs ! ([2..<fs_size fs div BLOCK_SIZE] ! i) = 0"
    "n = [2..<fs_size fs div BLOCK_SIZE] ! i"
    unfolding GetFreeBlock_def Let_def find_Some_iff by blast
  then show ?thesis by auto
qed

lemma fresh_block_content:
  assumes "off < List.length S"
  shows "copy_bytes (replicate BLOCK_SIZE 0) 0 S off
           (if BLOCK_SIZE < List.length S - off then BLOCK_SIZE else List.length S - off)
         = take BLOCK_SIZE (drop off S @ replicate BLOCK_SIZE 0)"
proof (rule nth_equalityI)
  show "List.length (copy_bytes (replicate BLOCK_SIZE 0) 0 S off
           (if BLOCK_SIZE < List.length S - off then BLOCK_SIZE else List.length S - off))
        = List.length (take BLOCK_SIZE (drop off S @ replicate BLOCK_SIZE 0))"
    by simp
next
  fix i
  assume "i < List.length (copy_bytes (replicate BLOCK_SIZE 0) 0 S off
           (if BLOCK_SIZE < List.length S - off then BLOCK_SIZE else List.length S - off))"
  then have i: "i < BLOCK_SIZE" by simp
  then show "copy_bytes (replicate BLOCK_SIZE 0) 0 S off
           (if BLOCK_SIZE < List.length S - off then BLOCK_SIZE else List.length S - off) ! i
        = take BLOCK_SIZE (drop off S @ replicate BLOCK_SIZE 0) ! i"
    by (auto simp: copy_bytes_nth nth_append)
qed

lemma write_step_inv:
  assumes inv: "write_inv S b ino st"
    and lt: "ws_bytes_written st < List.length S"
    and mb: "MAX_BLOCKS \<le> 128"
    and step: "write_step MAX_BLOCKS S (List.length S) ino st = Some st'"
  shows "write_inv S b ino st'"
proof -
  define fs where "fs = ws_fs st"
  define f where "f = ws_file st"
  define nums where "nums = ws_block_nums st"
  define bw where "bw = ws_bytes_written st"
  define node where "node = inodes fs ! ino"
  define nb where "nb = num_blocks node"
  note defs = fs_def f_def nums_def bw_def node_def nb_def
  from inv have
    pos: "current_position f = 0" and ino: "inode f = Some ino"
    and bwL: "bw \<le> List.length S" and bwnb: "bw = BLOCK_SIZE * nb"
    and nb128: "nb \<le> 128" and len: "List.length nums = 128"
    and small: "\<forall>n \<in> set nums. n < 2 ^ 32"
    and inoL: "ino < List.length (inodes fs)" and bnb: "block_numbers_block node = b"
    and fl0: "file_length node = 0"
    and b2: "2 \<le> b" and bL: "b < List.length (free_blocks fs)" and fb: "free_blocks fs ! b = 1"
    and fbl: "List.length (free_blocks fs) = fs_size fs div BLOCK_SIZE"
    and sz: "fs_size fs < 2 ^ 32"
    and blocks: "\<forall>j < nb. 2 \<le> nums ! j \<and> nums ! j < List.length (free_blocks fs) \<and>
                   nums ! j \<noteq> b \<and> free_blocks fs ! (nums ! j) = 1 \<and>
                   disk fs (nums ! j) = block_content S j"
    and ind: "disk fs b = block_nums_bytes nums"
    and cache: "cached_block_idx f = 2 ^ 32 - 1 \<or> cached_block_idx f < nb"
    using lt unfolding write_inv_def Let_def defs by blast+
  have idx: "(current_position f + bw) div BLOCK_SIZE = nb"
    and off: "(current_position f + bw) mod BLOCK_SIZE = 0"
    using pos bwnb by (simp_all add: BLOCK_SIZE_def)
  from step have st1: "allocate_block MAX_BLOCKS ino st \<noteq> None"
    unfolding write_step_def Let_def
    using idx by (auto simp: defs split: option.splits if_splits)
  then obtain new where new: "GetFreeBlock fs = Some new" and nbMB: "nb < MAX_BLOCKS"
    unfolding allocate_block_def Let_def
    by (auto simp: defs split: option.splits if_splits)
  from GetFreeBlock_Some [OF new] fbl have
    n2: "2 \<le> new" and nL: "new < List.length (free_blocks fs)" and nfree: "free_blocks fs ! new = 0"
    by simp_all
  have nb_ne: "new \<noteq> b" using fb nfree by auto
  have nums_ne: "\<forall>j < nb. nums ! j \<noteq> new" using blocks nfree by auto
  define cc where "cc = (if BLOCK_SIZE < List.length S - bw then BLOCK_SIZE else List.length S - bw)"
  define content where "content = copy_bytes (replicate BLOCK_SIZE 0) 0 S bw cc"
  define nums' where "nums' = nums[nb := new]"
  have nbl: "nb < List.length nums" using nbMB mb len by simp
  have c_ne: "nb \<noteq> cached_block_idx f" using cache nb128 by auto
  have new0: "new \<noteq> 0" "new \<noteq> 1" "new \<noteq> Suc 0" using n2 by auto
  have b1: "b \<noteq> 1" "b \<noteq> Suc 0" using b2 by auto
  have st': "st' = st\<lparr>ws_block_nums := nums', ws_bytes_written := bw + cc,
      ws_file := f\<lparr>block_cache := content, cached_block_idx := nb\<rparr>,
      ws_fs := fs\<lparr>disk := ((disk fs)(new := content, b := block_nums_bytes nums',
                                 1 := take BLOCK_SIZE ((free_blocks fs)[new := 1]))),
                 inodes := (inodes fs)[ino := node\<lparr>num_blocks := nb + 1\<rparr>],
                 free_blocks := (free_blocks fs)[new := 1]\<rparr>\<rparr>"
    using step new nbMB idx off c_ne nbl new0 b1 nb_ne bnb
    unfolding write_step_def allocate_block_def Let_def SaveFreeList_def load_block_def
    by (auto simp: defs [symmetric] nums'_def content_def cc_def fun_upd_twist split: if_splits)
  let ?fs' = "fs\<lparr>disk := ((disk fs)(new := content, b := block_nums_bytes nums',
                                 1 := take BLOCK_SIZE ((free_blocks fs)[new := 1]))),
                 inodes := (inodes fs)[ino := node\<lparr>num_blocks := nb + 1\<rparr>],
                 free_blocks := (free_blocks fs)[new := 1]\<rparr>"
  have node': "inodes ?fs' ! ino = node\<lparr>num_blocks := nb + 1\<rparr>" using inoL by simp
  have cc1: "cc \<le> List.length S - bw" and cc2: "cc \<le> BLOCK_SIZE"
    and cc3: "bw + cc < List.length S \<longrightarrow> cc = BLOCK_SIZE"
    unfolding cc_def by auto
  have content: "content = block_content S nb"
    unfolding content_def cc_def block_content_def bwnb [symmetric]
    by (rule fresh_block_content) (use lt in \<open>simp add: bw_def\<close>)
  have new_small: "new < 2 ^ 32"
  proof -
    have "new < fs_size fs" using nL fbl by (simp add: BLOCK_SIZE_def)
    then show ?thesis using sz by simp
  qed
  have small': "\<forall>n \<in> set nums'. n < 2 ^ 32"
  proof
    fix n assume "n \<in> set nums'"
    then have "n \<in> insert new (set nums)"
      unfolding nums'_def using set_update_subset_insert by fastforce
    then show "n < 2 ^ 32" using new_small small by auto
  qed
  have blocks': "\<forall>j < nb + 1. 2 \<le> nums' ! j \<and> nums' ! j < List.length (free_blocks ?fs') \<and>
                   nums' ! j \<noteq> b \<and> free_blocks ?fs' ! (nums' ! j) = 1 \<and>
                   disk ?fs' (nums' ! j) = block_content S j"
  proof (intro allI impI)
    fix j assume "j < nb + 1"
    then consider "j < nb" | "j = nb" by linarith
    then show "2 \<le> nums' ! j \<and> nums' ! j < List.length (free_blocks ?fs') \<and>
                   nums' ! j \<noteq> b \<and> free_blocks ?fs' ! (nums' ! j) = 1 \<and>
                   disk ?fs' (nums' ! j) = block_content S j"
    proof cases
      case 1
      then have e: "nums' ! j = nums ! j" by (simp add: nums'_def)
      from blocks 1 have o: "2 \<le> nums ! j" "nums ! j < List.length (free_blocks fs)"
        "nums ! j \<noteq> b" "free_blocks fs ! (nums ! j) = 1"
        "disk fs (nums ! j) = block_content S j" by blast+
      have n: "nums ! j \<noteq> new" using nums_ne 1 by blast
      have n1: "nums ! j \<noteq> 1" using o(1) by simp
      show ?thesis unfolding e using o n n1 by simp
    next
      case 2
      have e: "nums' ! j = new" using 2 nbl by (simp add: nums'_def)
      show ?thesis unfolding e using n2 nL nb_ne new0 content 2 by simp
    qed
  qed
  have ind': "disk ?fs' b = block_nums_bytes nums'" using b1 by simp
  have fb': "free_blocks ?fs' ! b = 1" using nb_ne fb by simp
  have F: "ws_fs st' = ?fs'" "ws_file st' = f\<lparr>block_cache := content, cached_block_idx := nb\<rparr>"
    "ws_block_nums st' = nums'" "ws_bytes_written st' = bw + cc"
    by (simp_all add: st')
  have bw1: "bw + cc \<le> List.length S" using cc1 bwL by simp
  have bw2: "bw + cc \<le> BLOCK_SIZE * (nb + 1)" using cc2 bwnb by simp
  have bw3: "bw + cc < List.length S \<longrightarrow> bw + cc = BLOCK_SIZE * (nb + 1)"
    using cc3 bwnb by simp
  have nb1: "nb + 1 \<le> 128" using nbMB mb by simp
  have len': "List.length nums' = 128" using len by (simp add: nums'_def)
  show ?thesis
    unfolding write_inv_def Let_def F node'
    using pos ino bw1 bw2 bw3 nb1 len' small' inoL bnb fl0 b2 bL fb' fbl sz blocks' ind'
    by simp
qed

lemma write_loop_inv:
  assumes "write_inv S b ino st" and "MAX_BLOCKS \<le> 128"
  shows "write_inv S b ino (write_loop MAX_BLOCKS S (List.length S) ino st)"
  using assms
proof (induction MAX_BLOCKS S "List.length S" ino st rule: write_loop.induct)
  case (1 MAX_BLOCKS buf ino st)
  show ?case
  proof (cases "ws_bytes_written st < List.length buf")
    case False
    then show ?thesis using "1.prems" by (simp add: write_loop.simps)
  next
    case True
    show ?thesis
    proof (cases "write_step MAX_BLOCKS buf (List.length buf) ino st")
      case None
      then show ?thesis using True "1.prems" by (simp add: write_loop.simps)
    next
      case (Some st')
      have "write_inv buf b ino st'"
        by (rule write_step_inv [OF "1.prems"(1) True "1.prems"(2) Some])
      then have "write_inv buf b ino (write_loop MAX_BLOCKS buf (List.length buf) ino st')"
        using "1.hyps" [OF True Some] "1.prems"(2) by simp
      then show ?thesis using True Some by (simp add: write_loop.simps)
    qed
  qed
qed

lemma find_index_Some:
  assumes "List.find P [0..<n] = Some i"
  shows "i < n \<and> P i \<and> (\<forall>j < i. \<not> P j)"
proof -
  from assms obtain k where k: "k < List.length [0..<n]" "P ([0..<n] ! k)" "i = [0..<n] ! k"
    "\<forall>j < k. \<not> P ([0..<n] ! j)"
    unfolding find_Some_iff by blast
  then show ?thesis by auto
qed

lemma find_index_first:
  assumes "i < n" and "P i" and "\<forall>j < i. \<not> P j"
  shows "List.find P [0..<n] = Some i"
  unfolding find_Some_iff
  using assms by (intro exI [of _ i]) auto

lemma CreateFile_True:
  assumes c: "CreateFile img file_id fs = (True, fs1)"
    and fbl: "List.length (free_blocks fs) = fs_size fs div BLOCK_SIZE"
  shows "\<exists>ino b. LookupFile fs1 file_id = Some ino \<and> ino < List.length (inodes fs1) \<and>
           inodes fs1 ! ino = \<lparr>inode_id = file_id, block_numbers_block = b,
                                num_blocks = 0, file_length = 0\<rparr> \<and>
           2 \<le> b \<and> b < List.length (free_blocks fs1) \<and> free_blocks fs1 ! b = 1 \<and>
           disk fs1 b = block_nums_bytes (replicate 128 0) \<and>
           fs_size fs1 = fs_size fs \<and>
           List.length (free_blocks fs1) = fs_size fs1 div BLOCK_SIZE"
proof -
  from c have l: "LookupFile fs file_id = None"
    by (auto simp: CreateFile_def split: if_splits)
  from c l obtain ii where ii: "GetFreeInode fs = Some ii"
    by (auto simp: CreateFile_def split: option.splits)
  from c l ii obtain b where b: "GetFreeBlock fs = Some b"
    by (auto simp: CreateFile_def split: option.splits)
  from GetFreeBlock_Some [OF b] fbl have
    b2: "2 \<le> b" and bL: "b < List.length (free_blocks fs)" by simp_all
  from find_index_Some [OF ii [unfolded GetFreeInode_def]] have iiL: "ii < List.length (inodes fs)"
    by simp
  have none: "\<forall>j < List.length (inodes fs). inode_id (inodes fs ! j) \<noteq> file_id"
    using l unfolding LookupFile_def find_None_iff by auto
  have b1: "b \<noteq> 0" "b \<noteq> 1" "b \<noteq> Suc 0" using b2 by auto
  have fs1: "fs1 = fs\<lparr>disk := (disk fs)(b := block_nums_bytes (replicate 128 0),
                            0 := img ((inodes fs)[ii := \<lparr>inode_id = file_id, block_numbers_block = b,
                                num_blocks = 0, file_length = 0\<rparr>]),
                            1 := take BLOCK_SIZE ((free_blocks fs)[b := 1])),
                  inodes := (inodes fs)[ii := \<lparr>inode_id = file_id, block_numbers_block = b,
                                num_blocks = 0, file_length = 0\<rparr>],
                  free_blocks := (free_blocks fs)[b := 1]\<rparr>"
    using c l ii b
    by (auto simp: CreateFile_def Let_def SaveInodes_def SaveFreeList_def BLOCK_SIZE_def)
  have look: "LookupFile fs1 file_id = Some ii"
    unfolding LookupFile_def
  proof (rule find_index_first)
    show "ii < List.length (inodes fs1)" using iiL by (simp add: fs1)
    show "inode_id (inodes fs1 ! ii) = file_id" using iiL by (simp add: fs1)
    show "\<forall>j<ii. inode_id (inodes fs1 ! j) \<noteq> file_id"
      using none iiL by (simp add: fs1)
  qed
  show ?thesis
    using look iiL b2 bL b1 fbl
    by (intro exI [of _ ii] exI [of _ b]) (simp add: fs1)
qed

lemma block_content_nth:
  assumes "BLOCK_SIZE * j + i < List.length S" and "i < BLOCK_SIZE"
  shows "block_content S j ! i = S ! (BLOCK_SIZE * j + i)"
proof -
  have "i < List.length (drop (BLOCK_SIZE * j) S)" using assms by simp
  then show ?thesis using assms(2) by (simp add: block_content_def nth_append)
qed

lemma block_content_length [simp]: "List.length (block_content S j) = BLOCK_SIZE"
  by (simp add: block_content_def)

lemma read_step_inv:
  assumes inv: "read_inv S st"
    and disk: "file_on_disk S fs ino nums"
    and lt: "rs_bytes_read st < List.length S"
  shows "\<exists>st'. read_step fs ino nums (List.length S) st = Some st' \<and> read_inv S st'"
proof -
  define br where "br = rs_bytes_read st"
  define f where "f = rs_file st"
  define buf where "buf = rs_buf st"
  define nb where "nb = num_blocks (inodes fs ! ino)"
  note defs = br_def f_def buf_def nb_def
  from inv lt have pos: "current_position f = 0" and brL: "br \<le> List.length S"
    and dvd: "BLOCK_SIZE dvd br" and bufL: "List.length buf = List.length S"
    and pre: "take br buf = take br S"
    and cache: "cached_block_idx f = 2 ^ 32 - 1 \<or> BLOCK_SIZE * (cached_block_idx f + 1) \<le> br"
    unfolding read_inv_def Let_def defs by blast+
  from disk have Lnb: "List.length S \<le> BLOCK_SIZE * nb" and nb128: "nb \<le> 128"
    and blocks: "\<forall>j < nb. nums ! j \<noteq> 0 \<and> disk fs (nums ! j) = block_content S j"
    unfolding file_on_disk_def defs by blast+
  define j where "j = br div BLOCK_SIZE"
  have brj: "br = BLOCK_SIZE * j" using dvd by (simp add: j_def)
  have idx: "(current_position f + br) div BLOCK_SIZE = j"
    and off: "(current_position f + br) mod BLOCK_SIZE = 0"
    using pos dvd by (simp_all add: j_def)
  have jnb: "j < nb"
  proof -
    have "BLOCK_SIZE * j < BLOCK_SIZE * nb" using lt Lnb brj unfolding defs by linarith
    then show ?thesis by (simp add: BLOCK_SIZE_def)
  qed
  from blocks jnb have nz: "nums ! j \<noteq> 0" and dj: "disk fs (nums ! j) = block_content S j"
    by blast+
  have c_ne: "j \<noteq> cached_block_idx f"
  proof
    assume e: "j = cached_block_idx f"
    from cache show False
    proof
      assume "cached_block_idx f = 2 ^ 32 - 1"
      then show False using e jnb nb128 by simp
    next
      assume "BLOCK_SIZE * (cached_block_idx f + 1) \<le> br"
      then show False using e brj by (simp add: BLOCK_SIZE_def)
    qed
  qed
  define cc where "cc = (if BLOCK_SIZE < List.length S - br then BLOCK_SIZE else List.length S - br)"
  define buf' where "buf' = copy_bytes buf br (block_content S j) 0 cc"
  define st' where "st' = \<lparr>rs_bytes_read = br + cc, rs_buf = buf',
      rs_file = f\<lparr>block_cache := block_content S j, cached_block_idx := j\<rparr>\<rparr>"
  have step: "read_step fs ino nums (List.length S) st = Some st'"
    unfolding read_step_def Let_def
    using idx off jnb nz dj c_ne
    by (simp add: defs [symmetric] load_block_def st'_def buf'_def cc_def)
  have cc1: "cc \<le> List.length S - br" and cc2: "cc \<le> BLOCK_SIZE"
    and cc3: "br + cc < List.length S \<longrightarrow> cc = BLOCK_SIZE"
    and cc0: "0 < cc"
    unfolding cc_def using lt by (auto simp: defs BLOCK_SIZE_def)
  have take': "take (br + cc) buf' = take (br + cc) S"
  proof (rule nth_equalityI)
    show "List.length (take (br + cc) buf') = List.length (take (br + cc) S)"
      using bufL by (simp add: buf'_def)
  next
    fix i
    assume "i < List.length (take (br + cc) buf')"
    then have i: "i < br + cc" and iL: "i < List.length buf"
      using bufL by (simp_all add: buf'_def)
    show "take (br + cc) buf' ! i = take (br + cc) S ! i"
    proof (cases "i < br")
      case True
      have "buf ! i = take br buf ! i" using True by simp
      also have "\<dots> = S ! i" using True pre by simp
      finally show ?thesis using True i iL by (simp add: buf'_def copy_bytes_nth)
    next
      case False
      then have k: "i - br < cc" "br \<le> i" using i by simp_all
      have "BLOCK_SIZE * j + (i - br) < List.length S" using k cc1 brj lt by (simp add: defs)
      then have "block_content S j ! (i - br) = S ! (BLOCK_SIZE * j + (i - br))"
        using k cc2 by (intro block_content_nth) simp_all
      then show ?thesis using False i iL k brj by (simp add: buf'_def copy_bytes_nth)
    qed
  qed
  have inv': "read_inv S st'"
    unfolding read_inv_def Let_def st'_def
    using pos cc1 cc2 cc3 brL dvd bufL take' brj lt
    by (auto simp: buf'_def defs)
  show ?thesis using step inv' by blast
qed

lemma read_loop_inv:
  assumes "read_inv S st" and "file_on_disk S fs ino nums"
  shows "read_inv S (read_loop fs ino nums (List.length S) st) \<and>
         rs_bytes_read (read_loop fs ino nums (List.length S) st) = List.length S"
  using assms
proof (induction fs ino nums "List.length S" st rule: read_loop.induct)
  case (1 fs ino block_nums st)
  show ?case
  proof (cases "rs_bytes_read st < List.length S")
    case False
    moreover have "rs_bytes_read st \<le> List.length S"
      using "1.prems"(1) by (simp add: read_inv_def Let_def)
    ultimately show ?thesis using "1.prems" by (simp add: read_loop.simps)
  next
    case True
    from read_step_inv [OF "1.prems"(1) "1.prems"(2) True] obtain st' where
      s: "read_step fs ino block_nums (List.length S) st = Some st'" and i: "read_inv S st'"
      by blast
    from "1.hyps" [OF True s i "1.prems"(2)]
    show ?thesis using True s by (simp add: read_loop.simps)
  qed
qed

lemma read_inv_result:
  assumes "read_inv S st" and "rs_bytes_read st = List.length S"
  shows "rs_buf st = S"
proof -
  from assms have "take (List.length S) (rs_buf st) = take (List.length S) S"
    and "List.length (rs_buf st) = List.length S"
    by (simp_all add: read_inv_def Let_def)
  then show ?thesis by simp
qed

lemma usub32_0: "a < 2 ^ 32 \<Longrightarrow> usub32 a 0 = a"
  by (simp add: usub32_def)

text \<open>
  If \<open>Write\<close> reports that it wrote all of \<open>S\<close>, reading the file back gives
  \<open>S\<close>.
\<close>

lemma Read_after_Write:
  assumes mb: "MAX_BLOCKS \<le> 128"
    and L: "List.length S \<le> MAX_BLOCKS * BLOCK_SIZE"
    and sz: "fs_size fs < 2 ^ 32"
    and fbl: "List.length (free_blocks fs) = fs_size fs div BLOCK_SIZE"
    and c: "CreateFile img file_id fs = (True, fs1)"
    and w: "Write MAX_BLOCKS (List.length S) S (File_init fs1 file_id, fs1) = (List.length S, f2, fs2)"
    and bufL: "List.length buf = List.length S"
  shows "fst (Read (List.length S) buf (Reset f2, fs2)) = List.length S \<and>
         fst (snd (Read (List.length S) buf (Reset f2, fs2))) = S"
proof -
  from CreateFile_True [OF c fbl] obtain ino b where
    look: "LookupFile fs1 file_id = Some ino" and inoL: "ino < List.length (inodes fs1)"
    and node: "inodes fs1 ! ino = \<lparr>inode_id = file_id, block_numbers_block = b,
                                num_blocks = 0, file_length = 0\<rparr>"
    and b2: "2 \<le> b" and bL: "b < List.length (free_blocks fs1)" and fb: "free_blocks fs1 ! b = 1"
    and ind: "disk fs1 b = block_nums_bytes (replicate 128 0)"
    and sz1: "fs_size fs1 = fs_size fs"
    and fbl1: "List.length (free_blocks fs1) = fs_size fs1 div BLOCK_SIZE"
    by blast
  have LS: "List.length S < 2 ^ 32"
  proof -
    have "MAX_BLOCKS * BLOCK_SIZE \<le> 128 * 512" using mb by (simp add: BLOCK_SIZE_def)
    then show ?thesis using L by simp
  qed
  have dec: "bytes_block_nums (disk fs1 b) = replicate 128 0"
    unfolding ind by (rule bytes_block_nums_inverse) simp_all
  define st0 where "st0 = \<lparr>ws_block_nums = bytes_block_nums (disk fs1 b), ws_bytes_written = 0,
      ws_file = File_init fs1 file_id, ws_fs = fs1\<rparr>"
  have inv0: "write_inv S b ino st0"
    unfolding write_inv_def Let_def st0_def
    using look inoL node b2 bL fb ind sz sz1 fbl1 dec
    by (simp add: File_init_def)
  define st where "st = write_loop MAX_BLOCKS S (List.length S) ino st0"
  have inv: "write_inv S b ino st"
    unfolding st_def by (rule write_loop_inv [OF inv0 mb])
  have b0: "b \<noteq> 0" using b2 by simp
  have mw: "usub32 (MAX_BLOCKS * BLOCK_SIZE) 0 = MAX_BLOCKS * BLOCK_SIZE"
    using mb by (intro usub32_0) (simp add: BLOCK_SIZE_def)
  have tw: "(if List.length S < MAX_BLOCKS * BLOCK_SIZE then List.length S
             else MAX_BLOCKS * BLOCK_SIZE) = List.length S"
    using L by simp
  have wr: "Write MAX_BLOCKS (List.length S) S (File_init fs1 file_id, fs1) =
      (ws_bytes_written st,
       (ws_file st)\<lparr>current_position := current_position (ws_file st) + ws_bytes_written st\<rparr>,
       (if current_position (ws_file st) + ws_bytes_written st > file_length (inodes (ws_fs st) ! ino)
        then (ws_fs st)\<lparr>inodes := (inodes (ws_fs st))[ino :=
                (inodes (ws_fs st) ! ino)\<lparr>file_length := current_position (ws_file st) + ws_bytes_written st\<rparr>]\<rparr>
        else ws_fs st))"
    unfolding Write_def Let_def
    using look node b0
    by (simp add: File_init_def st_def st0_def mw tw split del: if_split cong del: if_weak_cong)
  from w wr have bw: "ws_bytes_written st = List.length S"
    and f2: "f2 = (ws_file st)\<lparr>current_position := current_position (ws_file st) + ws_bytes_written st\<rparr>"
    and fs2: "fs2 = (if current_position (ws_file st) + ws_bytes_written st > file_length (inodes (ws_fs st) ! ino)
        then (ws_fs st)\<lparr>inodes := (inodes (ws_fs st))[ino :=
                (inodes (ws_fs st) ! ino)\<lparr>file_length := current_position (ws_file st) + ws_bytes_written st\<rparr>]\<rparr>
        else ws_fs st)"
    by auto
  define nums where "nums = ws_block_nums st"
  define nb where "nb = num_blocks (inodes (ws_fs st) ! ino)"
  from inv have
    pos: "current_position (ws_file st) = 0" and ino: "inode (ws_file st) = Some ino"
    and Lnb0: "ws_bytes_written st \<le> BLOCK_SIZE * nb"
    and nb128: "nb \<le> 128" and len: "List.length nums = 128"
    and small: "\<forall>n \<in> set nums. n < 2 ^ 32"
    and inoL': "ino < List.length (inodes (ws_fs st))"
    and bnb: "block_numbers_block (inodes (ws_fs st) ! ino) = b"
    and fl0: "file_length (inodes (ws_fs st) ! ino) = 0"
    and blocks: "\<forall>j < nb. 2 \<le> nums ! j \<and> nums ! j < List.length (free_blocks (ws_fs st)) \<and>
                   nums ! j \<noteq> b \<and> free_blocks (ws_fs st) ! (nums ! j) = 1 \<and>
                   disk (ws_fs st) (nums ! j) = block_content S j"
    and ind': "disk (ws_fs st) b = block_nums_bytes nums"
    unfolding write_inv_def Let_def nums_def nb_def by blast+
  have Lnb: "List.length S \<le> BLOCK_SIZE * nb" using Lnb0 bw by simp
  have d2: "disk fs2 = disk (ws_fs st)" by (simp add: fs2)
  have n2: "block_numbers_block (inodes fs2 ! ino) = b" "num_blocks (inodes fs2 ! ino) = nb"
    "file_length (inodes fs2 ! ino) = List.length S"
    using inoL' bnb fl0 pos bw by (auto simp: fs2 nb_def)
  have dec2: "bytes_block_nums (disk fs2 b) = nums"
    unfolding d2 ind' by (rule bytes_block_nums_inverse [OF len small])
  have fod: "file_on_disk S fs2 ino nums"
    unfolding file_on_disk_def n2 d2 using Lnb nb128 blocks by auto
  define r0 where "r0 = \<lparr>rs_bytes_read = 0, rs_buf = buf, rs_file = Reset f2\<rparr>"
  have rinv0: "read_inv S r0"
    unfolding read_inv_def Let_def r0_def by (simp add: Reset_def bufL)
  define r where "r = read_loop fs2 ino nums (List.length S) r0"
  from read_loop_inv [OF rinv0 fod] have rinv: "read_inv S r"
    and rb: "rs_bytes_read r = List.length S"
    unfolding r_def by simp_all
  have av: "usub32 (List.length S) 0 = List.length S" by (rule usub32_0 [OF LS])
  have rd: "Read (List.length S) buf (Reset f2, fs2) =
      (rs_bytes_read r, rs_buf r,
       (rs_file r)\<lparr>current_position := current_position (rs_file r) + rs_bytes_read r\<rparr>)"
    unfolding Read_def Let_def
    using ino n2 b0 dec2
    by (simp add: Reset_def f2 r_def r0_def av split del: if_split cong del: if_weak_cong)
  show ?thesis
    unfolding rd using rb read_inv_result [OF rinv rb] by simp
qed

lemma example_GetFreeBlock:
  "GetFreeBlock (example_fs 4) = Some 2" "GetFreeBlock (example_fs 3) = Some 2"
  by (simp_all add: GetFreeBlock_def example_fs_def BLOCK_SIZE_def upt_rec [of 2] )

lemma example_CreateFile:
  "fst (CreateFile example_img 1 (example_fs n)) = (GetFreeBlock (example_fs n) \<noteq> None)"
  by (simp add: CreateFile_def LookupFile_def GetFreeInode_def example_fs_def Let_def
      split: option.splits)

lemma example_created_fields:
  assumes "GetFreeBlock (example_fs n) = Some 2"
  shows "inodes (example_created n) =
      [\<lparr>inode_id = 1, block_numbers_block = 2, num_blocks = 0, file_length = 0\<rparr>]"
    and "free_blocks (example_created n) = 1 # 1 # (replicate (n - 2) 0)[0 := 1]"
    and "fs_size (example_created n) = n * BLOCK_SIZE"
  using assms
  by (simp_all add: example_created_def CreateFile_def LookupFile_def GetFreeInode_def
      SaveFreeList_def SaveInodes_def Let_def example_fs_def [of n] numeral_2_eq_2)

lemma example_created_GetFreeBlock:
  "GetFreeBlock (example_created 4) = Some 3" "GetFreeBlock (example_created 3) = None"
  by (simp_all add: GetFreeBlock_def example_created_fields [OF example_GetFreeBlock(1)]
      example_created_fields [OF example_GetFreeBlock(2)] BLOCK_SIZE_def
      upt_rec [of 2] upt_rec [of 3])

lemma example_File_init:
  assumes "GetFreeBlock (example_fs n) = Some 2"
  shows "inode (File_init (example_created n) 1) = Some 0"
    "current_position (File_init (example_created n) 1) = 0"
  by (simp_all add: File_init_def LookupFile_def example_created_fields [OF assms])

lemma write_loop_first_step:
  assumes "ws_bytes_written st = 0"
  shows "ws_bytes_written (write_loop MAX_BLOCKS buf (Suc 0) ino st) =
     (if write_step MAX_BLOCKS buf (Suc 0) ino st = None then 0 else 1)"
proof (cases "write_step MAX_BLOCKS buf (Suc 0) ino st")
  case None
  then show ?thesis using assms by (simp add: write_loop.simps)
next
  case (Some st')
  from write_step_progress [OF Some] assms have "ws_bytes_written st' = Suc 0" by simp
  then show ?thesis using Some assms by (simp add: write_loop.simps [of _ _ _ _ st] write_loop.simps [of _ _ _ _ st'])
qed

lemma write_step_None_iff:
  "write_step MAX_BLOCKS buf to_write ino st = None \<longleftrightarrow>
     (current_position (ws_file st) + ws_bytes_written st) div BLOCK_SIZE
        \<ge> num_blocks (inodes (ws_fs st) ! ino) \<and>
     (num_blocks (inodes (ws_fs st) ! ino) \<ge> MAX_BLOCKS \<or> GetFreeBlock (ws_fs st) = None)"
  by (simp add: write_step_def allocate_block_def Let_def split: option.splits)

lemma example_written_count:
  assumes "GetFreeBlock (example_fs n) = Some 2"
  shows "fst (example_written n) = (if GetFreeBlock (example_created n) = None then 0 else 1)"
  unfolding example_written_def Write_def Let_def
  by (simp add: example_File_init [OF assms] example_created_fields [OF assms]
      write_loop_first_step write_step_None_iff usub32_def BLOCK_SIZE_def
      split del: if_split cong del: if_weak_cong)

text \<open>Enough free blocks: \<open>Write\<close> writes all of \<open>S\<close>.\<close>

lemma free_block_count_card:
  "free_block_count fs = card {i. 2 \<le> i \<and> i < fs_size fs div BLOCK_SIZE \<and> free_blocks fs ! i = 0}"
proof -
  have "distinct (filter (\<lambda>i. free_blocks fs ! i = 0) [2..<fs_size fs div BLOCK_SIZE])"
    by simp
  then have "free_block_count fs
      = card (set (filter (\<lambda>i. free_blocks fs ! i = 0) [2..<fs_size fs div BLOCK_SIZE]))"
    unfolding free_block_count_def by (simp only: distinct_card)
  also have "set (filter (\<lambda>i. free_blocks fs ! i = 0) [2..<fs_size fs div BLOCK_SIZE])
      = {i. 2 \<le> i \<and> i < fs_size fs div BLOCK_SIZE \<and> free_blocks fs ! i = 0}"
    by auto
  finally show ?thesis .
qed

lemma GetFreeBlock_exists:
  assumes "0 < free_block_count fs"
  shows "\<exists>b. GetFreeBlock fs = Some b"
proof -
  from assms have "filter (\<lambda>i. free_blocks fs ! i = 0) [2..<fs_size fs div BLOCK_SIZE] \<noteq> []"
    by (auto simp: free_block_count_def)
  then obtain i where "i \<in> set [2..<fs_size fs div BLOCK_SIZE]" "free_blocks fs ! i = 0"
    by (auto simp: filter_empty_conv)
  then have "List.find (\<lambda>i. free_blocks fs ! i = 0) [2..<fs_size fs div BLOCK_SIZE] \<noteq> None"
    by (auto simp: find_None_iff)
  then show ?thesis by (auto simp: GetFreeBlock_def Let_def)
qed

lemma free_block_count_take:
  assumes b: "GetFreeBlock fs = Some b"
    and fbl: "List.length (free_blocks fs) = fs_size fs div BLOCK_SIZE"
    and sz: "fs_size fs' = fs_size fs"
    and fb: "free_blocks fs' = (free_blocks fs)[b := 1]"
  shows "free_block_count fs' + 1 = free_block_count fs"
proof -
  let ?A = "{i. 2 \<le> i \<and> i < fs_size fs div BLOCK_SIZE \<and> free_blocks fs ! i = 0}"
  from GetFreeBlock_Some [OF b] have bA: "b \<in> ?A" by simp
  have fin: "finite ?A" by simp
  have "{i. 2 \<le> i \<and> i < fs_size fs' div BLOCK_SIZE \<and> free_blocks fs' ! i = 0} = ?A - {b}"
  proof -
    have "free_blocks fs' ! i = (if i = b then 1 else free_blocks fs ! i)"
      if "i < fs_size fs div BLOCK_SIZE" for i
      using that fbl by (simp add: fb nth_list_update)
    then show ?thesis by (auto simp: sz split: if_splits)
  qed
  then have "free_block_count fs' = card (?A - {b})"
    by (simp only: free_block_count_card)
  also have "\<dots> = card ?A - 1" using bA fin by simp
  finally have "free_block_count fs' = free_block_count fs - 1"
    by (simp only: free_block_count_card)
  moreover have "0 < free_block_count fs"
    unfolding free_block_count_card using bA fin card_gt_0_iff by blast
  ultimately show ?thesis by simp
qed

lemma blocks_needed_gt:
  assumes "BLOCK_SIZE * nb < n"
  shows "nb < blocks_needed n"
proof -
  have "BLOCK_SIZE * (nb + 1) \<le> n + (BLOCK_SIZE - 1)" using assms by (simp add: BLOCK_SIZE_def)
  then have "(BLOCK_SIZE * (nb + 1)) div BLOCK_SIZE \<le> (n + (BLOCK_SIZE - 1)) div BLOCK_SIZE"
    by (rule div_le_mono)
  then show ?thesis by (simp add: blocks_needed_def BLOCK_SIZE_def)
qed

text \<open>
  While bytes remain and enough blocks are free, a pass of the loop of \<open>Write\<close>
  does not break, and enough blocks stay free for the rest.
\<close>

lemma write_step_space:
  assumes inv: "write_inv S b ino st"
    and lt: "ws_bytes_written st < List.length S"
    and L: "List.length S \<le> MAX_BLOCKS * BLOCK_SIZE"
    and sp: "blocks_needed (List.length S)
               \<le> num_blocks (inodes (ws_fs st) ! ino) + free_block_count (ws_fs st)"
  shows "\<exists>st'. write_step MAX_BLOCKS S (List.length S) ino st = Some st' \<and>
           blocks_needed (List.length S)
               \<le> num_blocks (inodes (ws_fs st') ! ino) + free_block_count (ws_fs st')"
proof -
  define fs where "fs = ws_fs st"
  define f where "f = ws_file st"
  define bw where "bw = ws_bytes_written st"
  define node where "node = inodes fs ! ino"
  define nb where "nb = num_blocks node"
  note defs = fs_def f_def bw_def node_def nb_def
  from inv have
    pos: "current_position f = 0" and bwnb: "bw = BLOCK_SIZE * nb"
    and inoL: "ino < List.length (inodes fs)"
    and fbl: "List.length (free_blocks fs) = fs_size fs div BLOCK_SIZE"
    using lt unfolding write_inv_def Let_def defs by blast+
  have idx: "(current_position f + bw) div BLOCK_SIZE = nb"
    using pos bwnb by (simp add: BLOCK_SIZE_def)
  have "BLOCK_SIZE * nb < List.length S" using lt bwnb by (simp add: bw_def)
  then have "512 * nb < MAX_BLOCKS * 512" using L by (simp add: BLOCK_SIZE_def)
  then have nbMB: "nb < MAX_BLOCKS" by simp
  have "nb < blocks_needed (List.length S)"
    by (rule blocks_needed_gt) (use lt bwnb in \<open>simp add: bw_def\<close>)
  then have "0 < free_block_count fs" using sp by (simp add: defs)
  from GetFreeBlock_exists [OF this] obtain new where new: "GetFreeBlock fs = Some new" by blast
  have "\<exists>st'. write_step MAX_BLOCKS S (List.length S) ino st = Some st' \<and>
          free_blocks (ws_fs st') = (free_blocks fs)[new := 1] \<and>
          fs_size (ws_fs st') = fs_size fs \<and>
          num_blocks (inodes (ws_fs st') ! ino) = nb + 1"
    unfolding write_step_def allocate_block_def Let_def SaveFreeList_def
    using new nbMB idx inoL
    by (simp add: defs [symmetric])
  then obtain st' where st': "write_step MAX_BLOCKS S (List.length S) ino st = Some st'"
    and fb': "free_blocks (ws_fs st') = (free_blocks fs)[new := 1]"
    and sz': "fs_size (ws_fs st') = fs_size fs"
    and nb': "num_blocks (inodes (ws_fs st') ! ino) = nb + 1"
    by blast
  from free_block_count_take [OF new fbl sz' fb']
  have "free_block_count (ws_fs st') + 1 = free_block_count fs" .
  then have "blocks_needed (List.length S)
               \<le> num_blocks (inodes (ws_fs st') ! ino) + free_block_count (ws_fs st')"
    using sp nb' by (simp add: defs)
  with st' show ?thesis by blast
qed

lemma write_loop_complete:
  assumes "write_inv S b ino st" and "MAX_BLOCKS \<le> 128"
    and "List.length S \<le> MAX_BLOCKS * BLOCK_SIZE"
    and "blocks_needed (List.length S)
               \<le> num_blocks (inodes (ws_fs st) ! ino) + free_block_count (ws_fs st)"
  shows "ws_bytes_written (write_loop MAX_BLOCKS S (List.length S) ino st) = List.length S"
  using assms
proof (induction MAX_BLOCKS S "List.length S" ino st rule: write_loop.induct)
  case (1 MAX_BLOCKS buf ino st)
  show ?case
  proof (cases "ws_bytes_written st < List.length buf")
    case False
    moreover have "ws_bytes_written st \<le> List.length buf"
      using "1.prems"(1) by (simp add: write_inv_def Let_def)
    ultimately show ?thesis by (simp add: write_loop.simps)
  next
    case True
    from write_step_space [OF "1.prems"(1) True "1.prems"(3) "1.prems"(4)] obtain st' where
      s: "write_step MAX_BLOCKS buf (List.length buf) ino st = Some st'"
      and sp: "blocks_needed (List.length buf)
               \<le> num_blocks (inodes (ws_fs st') ! ino) + free_block_count (ws_fs st')"
      by blast
    have i: "write_inv buf b ino st'"
      by (rule write_step_inv [OF "1.prems"(1) True "1.prems"(2) s])
    from "1.hyps" [OF True s i "1.prems"(2) "1.prems"(3) sp]
    show ?thesis using True s by (simp add: write_loop.simps)
  qed
qed

lemma CreateFile_succeeds:
  assumes l: "LookupFile fs file_id = None"
    and i: "GetFreeInode fs \<noteq> None"
    and f: "0 < free_block_count fs"
    and fbl: "List.length (free_blocks fs) = fs_size fs div BLOCK_SIZE"
  shows "fst (CreateFile img file_id fs) = True \<and>
         free_block_count (snd (CreateFile img file_id fs)) + 1 = free_block_count fs"
proof -
  from i obtain ii where ii: "GetFreeInode fs = Some ii" by auto
  from GetFreeBlock_exists [OF f] obtain b where b: "GetFreeBlock fs = Some b" by blast
  have t: "fst (CreateFile img file_id fs) = True"
    and fb: "free_blocks (snd (CreateFile img file_id fs)) = (free_blocks fs)[b := 1]"
    and sz: "fs_size (snd (CreateFile img file_id fs)) = fs_size fs"
    using l ii b by (simp_all add: CreateFile_def Let_def SaveInodes_def SaveFreeList_def)
  from free_block_count_take [OF b fbl sz fb] t show ?thesis by simp
qed

lemma Write_complete:
  assumes mb: "MAX_BLOCKS \<le> 128"
    and L: "List.length S \<le> MAX_BLOCKS * BLOCK_SIZE"
    and sz: "fs_size fs < 2 ^ 32"
    and fbl: "List.length (free_blocks fs) = fs_size fs div BLOCK_SIZE"
    and c: "CreateFile img file_id fs = (True, fs1)"
    and sp: "blocks_needed (List.length S) \<le> free_block_count fs1"
  shows "fst (Write MAX_BLOCKS (List.length S) S (File_init fs1 file_id, fs1)) = List.length S"
proof -
  from CreateFile_True [OF c fbl] obtain ino b where
    look: "LookupFile fs1 file_id = Some ino" and inoL: "ino < List.length (inodes fs1)"
    and node: "inodes fs1 ! ino = \<lparr>inode_id = file_id, block_numbers_block = b,
                                num_blocks = 0, file_length = 0\<rparr>"
    and b2: "2 \<le> b" and bL: "b < List.length (free_blocks fs1)" and fb: "free_blocks fs1 ! b = 1"
    and ind: "disk fs1 b = block_nums_bytes (replicate 128 0)"
    and sz1: "fs_size fs1 = fs_size fs"
    and fbl1: "List.length (free_blocks fs1) = fs_size fs1 div BLOCK_SIZE"
    by blast
  have dec: "bytes_block_nums (disk fs1 b) = replicate 128 0"
    unfolding ind by (rule bytes_block_nums_inverse) simp_all
  define st0 where "st0 = \<lparr>ws_block_nums = bytes_block_nums (disk fs1 b), ws_bytes_written = 0,
      ws_file = File_init fs1 file_id, ws_fs = fs1\<rparr>"
  have inv0: "write_inv S b ino st0"
    unfolding write_inv_def Let_def st0_def
    using look inoL node b2 bL fb ind sz sz1 fbl1 dec
    by (simp add: File_init_def)
  have sp0: "blocks_needed (List.length S)
               \<le> num_blocks (inodes (ws_fs st0) ! ino) + free_block_count (ws_fs st0)"
    using sp node by (simp add: st0_def)
  define st where "st = write_loop MAX_BLOCKS S (List.length S) ino st0"
  have complete: "ws_bytes_written st = List.length S"
    unfolding st_def by (rule write_loop_complete [OF inv0 mb L sp0])
  have b0: "b \<noteq> 0" using b2 by simp
  have mw: "usub32 (MAX_BLOCKS * BLOCK_SIZE) 0 = MAX_BLOCKS * BLOCK_SIZE"
    using mb by (intro usub32_0) (simp add: BLOCK_SIZE_def)
  have tw: "(if List.length S < MAX_BLOCKS * BLOCK_SIZE then List.length S
             else MAX_BLOCKS * BLOCK_SIZE) = List.length S"
    using L by simp
  have "fst (Write MAX_BLOCKS (List.length S) S (File_init fs1 file_id, fs1)) = ws_bytes_written st"
    unfolding Write_def Let_def
    using look node b0
    by (simp add: File_init_def st_def st0_def mw tw split del: if_split cong del: if_weak_cong)
  with complete show ?thesis by simp
qed

text \<open>
  Claim C1. For every byte sequence \<open>S\<close> of length \<open>L \<le> MAX_BLOCKS * 512\<close>,
  creating a file, writing \<open>S\<close> from position 0, calling \<open>Reset\<close> and reading
  \<open>L\<close> bytes returns exactly \<open>S\<close>: \<open>CreateFile\<close> returns true, \<open>Write\<close>
  returns \<open>L\<close>, \<open>Read\<close> returns \<open>L\<close> and the buffer holds \<open>S\<close>. This holds
  on a mounted file system smaller than \<open>2 ^ 32\<close> bytes whose free list has one
  byte for each block, when no file has the identifier yet, an inode is free, and
  the free blocks are enough for the blocks of \<open>S\<close> and the block of the block
  numbers; \<open>MAX_BLOCKS \<le> 128\<close>, since the array of block numbers has 128 entries,
  and the caller's buffer has \<open>L\<close> bytes.
\<close>

theorem file_round_trip:
  assumes mb: "MAX_BLOCKS \<le> 128"
    and L: "List.length S \<le> MAX_BLOCKS * BLOCK_SIZE"
    and sz: "fs_size fs < 2 ^ 32"
    and fbl: "List.length (free_blocks fs) = fs_size fs div BLOCK_SIZE"
    and nofile: "LookupFile fs file_id = None"
    and inode_free: "GetFreeInode fs \<noteq> None"
    and space: "blocks_needed (List.length S) + 1 \<le> free_block_count fs"
    and bufL: "List.length buf = List.length S"
  shows
    "(let (created, fs1) = CreateFile img file_id fs;
          (written, f2, fs2) = Write MAX_BLOCKS (List.length S) S (File_init fs1 file_id, fs1);
          (n, buf', f3) = Read (List.length S) buf (Reset f2, fs2)
      in created = True \<and> written = List.length S \<and> n = List.length S \<and> buf' = S)"
proof -
  obtain created fs1 where c0: "CreateFile img file_id fs = (created, fs1)"
    by (cases "CreateFile img file_id fs") auto
  from space have f: "0 < free_block_count fs" by simp
  from CreateFile_succeeds [OF nofile inode_free f fbl, of img] c0
  have cr: "created = True" and fc: "free_block_count fs1 + 1 = free_block_count fs"
    by simp_all
  have c: "CreateFile img file_id fs = (True, fs1)" using c0 cr by simp
  have sp: "blocks_needed (List.length S) \<le> free_block_count fs1" using space fc by simp
  obtain written f2 fs2 where
    w0: "Write MAX_BLOCKS (List.length S) S (File_init fs1 file_id, fs1) = (written, f2, fs2)"
    by (cases "Write MAX_BLOCKS (List.length S) S (File_init fs1 file_id, fs1)") auto
  from Write_complete [OF mb L sz fbl c sp] w0 have wr: "written = List.length S" by simp
  have w: "Write MAX_BLOCKS (List.length S) S (File_init fs1 file_id, fs1) = (List.length S, f2, fs2)"
    using w0 wr by simp
  obtain n buf' f3 where r0: "Read (List.length S) buf (Reset f2, fs2) = (n, buf', f3)"
    by (cases "Read (List.length S) buf (Reset f2, fs2)") auto
  from Read_after_Write [OF mb L sz fbl c w bufL] r0
  have "n = List.length S" "buf' = S" by simp_all
  then show ?thesis by (simp add: c w r0)
qed

text \<open>
  The theorem for the 1000 bytes of \<open>example_bytes\<close>, two blocks, on a disk of
  eight blocks.
\<close>

lemma example_bytes_length: "List.length example_bytes = 1000"
  by (simp only: example_bytes_def length_map length_upt diff_zero)

lemma example_fs_free_block_count: "free_block_count (example_fs n) = n - 2"
proof -
  have "filter (\<lambda>i. (1 # 1 # replicate (n - 2) (0 :: byte)) ! i = 0) [2..<n] = [2..<n]"
    by (rule filter_True) (auto simp: nth_Cons split: nat.splits)
  then show ?thesis
    by (simp add: free_block_count_def example_fs_def BLOCK_SIZE_def)
qed

theorem file_round_trip_witness:
  "(let (created, fs1) = CreateFile example_img 1 (example_fs 8);
        (written, f2, fs2) = Write 128 (List.length example_bytes) example_bytes
                               (File_init fs1 1, fs1);
        (n, buf', f3) = Read (List.length example_bytes) (replicate 1000 0) (Reset f2, fs2)
    in created = True \<and> written = List.length example_bytes \<and>
       n = List.length example_bytes \<and> buf' = example_bytes) \<and>
   List.length example_bytes = 1000 \<and> blocks_needed 1000 = 2 \<and>
   free_block_count (example_fs 8) = 6"
proof -
  have h2: "List.length example_bytes \<le> 128 * BLOCK_SIZE"
    by (simp add: example_bytes_length BLOCK_SIZE_def)
  have h3: "fs_size (example_fs 8) < 2 ^ 32" by (simp add: example_fs_def BLOCK_SIZE_def)
  have h4: "List.length (free_blocks (example_fs 8)) = fs_size (example_fs 8) div BLOCK_SIZE"
    by (simp add: example_fs_def BLOCK_SIZE_def)
  have h5: "LookupFile (example_fs 8) 1 = None"
    by (simp add: LookupFile_def example_fs_def)
  have h6: "GetFreeInode (example_fs 8) \<noteq> None"
    by (simp add: GetFreeInode_def example_fs_def)
  have b: "blocks_needed 1000 = 2" by (simp add: blocks_needed_def BLOCK_SIZE_def)
  have h7: "blocks_needed (List.length example_bytes) + 1 \<le> free_block_count (example_fs 8)"
    by (simp add: example_bytes_length b example_fs_free_block_count)
  have h8: "List.length (replicate 1000 (0 :: byte)) = List.length example_bytes"
    by (simp add: example_bytes_length)
  from file_round_trip [OF _ h2 h3 h4 h5 h6 h7 h8, of example_img]
  show ?thesis
    by (simp add: example_bytes_length b example_fs_free_block_count)
qed

text \<open>
  On the disk of three blocks \<open>CreateFile\<close> takes the last free block, \<open>Write\<close>
  finds no block for the data and writes nothing, and \<open>Read\<close> returns 0 and leaves
  the buffer as it was.
\<close>

lemma read_loop_nothing:
  "read_loop fs ino block_nums 0 st = st"
  by (simp add: read_loop.simps)

theorem file_round_trip_counterexample:
  "fst (CreateFile example_img 1 (example_fs 3)) \<and>
   fst (example_written 3) = 0 \<and>
   fst (Read 1 [0] (Reset (fst (snd (example_written 3))), snd (snd (example_written 3)))) = 0 \<and>
   fst (snd (Read 1 [0] (Reset (fst (snd (example_written 3))), snd (snd (example_written 3)))))
     \<noteq> [7]"
proof -
  have g: "GetFreeBlock (example_fs 3) = Some 2" by (rule example_GetFreeBlock)
  have c: "fst (CreateFile example_img 1 (example_fs 3))"
    by (simp add: example_CreateFile g)
  have n: "fst (example_written 3) = 0"
    by (simp add: example_written_count [OF g] example_created_GetFreeBlock)
  have "write_step 128 [7] (Suc 0) 0
       \<lparr>ws_block_nums = bytes_block_nums (disk (example_created 3) 2), ws_bytes_written = 0,
        ws_file = File_init (example_created 3) 1, ws_fs = example_created 3\<rparr> = None"
    by (simp add: write_step_None_iff example_created_GetFreeBlock example_File_init [OF g]
        example_created_fields [OF g])
  then have st: "write_loop 128 [7] (Suc 0) 0
       \<lparr>ws_block_nums = bytes_block_nums (disk (example_created 3) 2), ws_bytes_written = 0,
        ws_file = File_init (example_created 3) 1, ws_fs = example_created 3\<rparr> =
       \<lparr>ws_block_nums = bytes_block_nums (disk (example_created 3) 2), ws_bytes_written = 0,
        ws_file = File_init (example_created 3) 1, ws_fs = example_created 3\<rparr>"
    by (simp add: write_loop.simps [of 128 "[7]" "Suc 0" 0])
  have f: "inode (fst (snd (example_written 3))) = Some 0"
    and fs: "inodes (snd (snd (example_written 3))) = inodes (example_created 3)"
    unfolding example_written_def Write_def Let_def
    by (simp_all add: example_File_init [OF g] example_created_fields [OF g] usub32_def
        BLOCK_SIZE_def st)
  have r: "Read 1 [0] (Reset (fst (snd (example_written 3))), snd (snd (example_written 3))) =
      (0, [0], Reset (fst (snd (example_written 3))))"
    unfolding Read_def Let_def
    by (simp add: f fs Reset_def example_created_fields [OF g] usub32_def read_loop_nothing)
  show ?thesis unfolding r using c n by simp
qed

end
